theory Spec2Isabelle
  imports Complex_Main "HOL-Library.Sublist" "HOL-Library.AList"
begin

section \<open>Python strings\<close>

text \<open>
  A Python \<open>str\<close> is a sequence of Unicode code points, so it is modelled as a list of
  natural numbers. \<open>py\<close> turns an ASCII literal of the source into that representation and
  \<open>cp\<close> does so for a single character; code points beyond ASCII (the emoji of the
  user interface) are written as numbers.
\<close>

type_synonym pystr = "nat list"

abbreviation cp :: "char \<Rightarrow> nat" where
  "cp \<equiv> of_char"

definition py :: "string \<Rightarrow> pystr" where
  "py s = map of_char s"

text \<open>\<open>str(n)\<close> and \<open>f"{n}"\<close> for a Python \<open>int\<close>: the decimal numeral, with a minus sign
  for a negative number.\<close>

fun digits10 :: "nat \<Rightarrow> pystr" where
  "digits10 n = (if n < 10 then [48 + n] else digits10 (n div 10) @ [48 + n mod 10])"

declare digits10.simps [simp del]

definition str_int :: "int \<Rightarrow> pystr" where
  "str_int i = (if i < 0 then cp CHR ''-'' # digits10 (nat (- i)) else digits10 (nat i))"

text \<open>
  \<open>s.replace(old, new)\<close>: every non-overlapping occurrence of \<open>old\<close>, found from the left,
  is replaced. With an empty \<open>old\<close> Python inserts \<open>new\<close> before every character and at
  the end.
\<close>

function replace_scan :: "'a list \<Rightarrow> 'a list \<Rightarrow> 'a list \<Rightarrow> 'a list" where
  "replace_scan [] old new = []"
| "replace_scan (c # cs) old new =
     (if old \<noteq> [] \<and> prefix old (c # cs)
      then new @ replace_scan (drop (length old) (c # cs)) old new
      else c # replace_scan cs old new)"
  by pat_completeness auto
termination
  by (relation "measure (\<lambda>(s, old, new). length s)") (auto simp: neq_Nil_conv)

declare replace_scan.simps(2) [simp del]

definition replace :: "'a list \<Rightarrow> 'a list \<Rightarrow> 'a list \<Rightarrow> 'a list" where
  "replace s old new =
     (if old = [] then new @ concat (map (\<lambda>c. c # new) s) else replace_scan s old new)"

text \<open>
  \<open>s.strip()\<close> removes the leading and trailing characters for which \<open>str.isspace\<close> holds:
  the ASCII ones (tab to carriage return, the four separators \<open>0x1C\<close> to \<open>0x1F\<close>, space)
  and the Unicode white space beyond ASCII.
\<close>

definition isspace :: "nat \<Rightarrow> bool" where
  "isspace c =
     ((9 \<le> c \<and> c \<le> 13) \<or> (28 \<le> c \<and> c \<le> 32) \<or> c = 0x85 \<or> c = 0xA0 \<or> c = 0x1680
      \<or> (0x2000 \<le> c \<and> c \<le> 0x200A) \<or> c = 0x2028 \<or> c = 0x2029 \<or> c = 0x202F
      \<or> c = 0x205F \<or> c = 0x3000)"

definition strip :: "pystr \<Rightarrow> pystr" where
  "strip s = rev (dropWhile isspace (rev (dropWhile isspace s)))"

section \<open>The prompt\<close>

text \<open>
  \<open>generate_stays_prompt\<close> is an f-string: fixed text with \<open>max_results\<close>, \<open>location\<close> and
  \<open>radius\<close> formatted into it, in this order. Every line of the literal starts with four
  spaces, and the literal ends with a line break and four spaces. The two fence markers
  of the sentence on markdown are written as pieces of their own.
\<close>

definition fence_json :: pystr where
  "fence_json = py ''```json''"

definition fence :: pystr where
  "fence = py ''```''"

definition generate_stays_prompt :: "pystr \<Rightarrow> int \<Rightarrow> int \<Rightarrow> pystr" where
  \<open>generate_stays_prompt location radius max_results =
     py ''\<newline>    Act as a travel specialist. Find '' @ str_int max_results @
     py '' accommodation options around "'' @ location @
     py ''" within '' @ str_int radius @
     py '' km.\<newline>    \<newline>    Strictly return a JSON array of objects. Do not include markdown formatting like '' @
     fence_json @ py '' ... '' @ fence @
     py ''.\<newline>    \<newline>    Each object must have:\<newline>    - "name": string\<newline>    - "type": string (e.g. Hotel, Hostel, Resort)\<newline>    - "distance_km": number (estimated)\<newline>    - "price_range": string (e.g. "$", "$$", "$$$")\<newline>    - "rating": number (0-5)\<newline>    - "amenities": list of strings (max 5 items)\<newline>    - "description": string (short marketing blurb)\<newline>    ''\<close>

section \<open>Python values and the JSON decoder\<close>

text \<open>
  \<open>json.loads\<close> returns Python objects: \<open>None\<close>, \<open>bool\<close>, \<open>int\<close>, \<open>float\<close>, \<open>str\<close>, \<open>list\<close>
  and \<open>dict\<close>. A \<open>dict\<close> keeps its keys in insertion order, so it is an association list
  with distinct keys. A finite \<open>float\<close> stands for the decimal number its literal denotes;
  the rounding of that number to binary64 is outside this model.
\<close>

datatype pyfloat = Finite rat | NaN | PosInf | NegInf

datatype pyval =
    PyNone
  | PyBool bool
  | PyInt int
  | PyFloat pyfloat
  | PyStr pystr
  | PyList "pyval list"
  | PyDict "(pystr \<times> pyval) list"

text \<open>\<open>dict(pairs)\<close>: a later pair with a key already present replaces its value in place.\<close>

definition dict :: "(pystr \<times> pyval) list \<Rightarrow> (pystr \<times> pyval) list" where
  "dict pairs = foldl (\<lambda>d (k, v). AList.update k v d) [] pairs"

text \<open>
  The exceptions of the model: those the decoder raises and those of the built-in
  operations used further down. A function that raises returns \<open>Inl\<close> of the exception.
  \<open>json.JSONDecodeError\<close> is a class of its own here, since \<open>except json.JSONDecodeError\<close>
  does not catch a plain \<open>ValueError\<close>.
\<close>

datatype py_exception =
    TypeError
  | ValueError
  | AttributeError
  | OverflowError
  | RecursionError
  | JSONDecodeError

text \<open>
  Two limits of the running interpreter decide whether the decoder raises something else
  than \<open>JSONDecodeError\<close>. \<open>recursion_headroom\<close> is the number of nested arrays and objects
  the decoder can enter before the recursion check of the interpreter fails; it depends
  on the recursion limit and on the calls already active. \<open>int_max_str_digits\<close> is the
  limit on the digits of an integer literal (\<open>sys.get_int_max_str_digits()\<close>), where \<open>0\<close>
  means no limit; literals of at most 640 digits are never refused. \<open>cpython_defaults\<close>
  are the values CPython starts with: a recursion limit of 1000 and 4300 digits.
\<close>

record limits =
  recursion_headroom :: nat
  int_max_str_digits :: nat

definition cpython_defaults :: limits where
  "cpython_defaults = \<lparr>recursion_headroom = 1000, int_max_str_digits = 4300\<rparr>"

text \<open>
  The decoder follows CPython's \<open>json.decoder\<close> and its scanner (\<open>scan_once\<close>,
  \<open>scanstring\<close>, \<open>_parse_object\<close>, \<open>_parse_array\<close>, \<open>_match_number\<close>), in strict mode and
  with no hooks, as \<open>json.loads(s)\<close> runs them. The scanner's position in the text is
  modelled by the text that remains. A text that is not JSON makes the decoder raise
  \<open>json.JSONDecodeError\<close>; its message and position are not modelled. Entering an
  array or an object with no headroom left raises \<open>RecursionError\<close>, and an integer
  literal with more digits than the limit raises \<open>ValueError\<close>. White space between
  tokens is space, tab, line feed and carriage return.
\<close>

definition json_ws :: "nat \<Rightarrow> bool" where
  "json_ws c = (c = 32 \<or> c = 9 \<or> c = 10 \<or> c = 13)"

definition skip_ws :: "pystr \<Rightarrow> pystr" where
  "skip_ws s = dropWhile json_ws s"

definition isdigit :: "nat \<Rightarrow> bool" where
  "isdigit c = (48 \<le> c \<and> c \<le> 57)"

definition digits_value :: "pystr \<Rightarrow> nat" where
  "digits_value ds = foldl (\<lambda>a d. 10 * a + (d - 48)) 0 ds"

definition hexval :: "nat \<Rightarrow> nat option" where
  "hexval c =
     (if 48 \<le> c \<and> c \<le> 57 then Some (c - 48)
      else if 97 \<le> c \<and> c \<le> 102 then Some (c - 87)
      else if 65 \<le> c \<and> c \<le> 70 then Some (c - 55)
      else None)"

definition hex4 :: "pystr \<Rightarrow> nat option" where
  "hex4 s =
     (case s of
        a # b # c # d # _ \<Rightarrow>
          (case (hexval a, hexval b, hexval c, hexval d) of
             (Some x, Some y, Some z, Some w) \<Rightarrow> Some (((x * 16 + y) * 16 + z) * 16 + w)
           | _ \<Rightarrow> None)
      | _ \<Rightarrow> None)"

text \<open>The character after a backslash: the quote (\<open>0x22\<close>), the backslash (\<open>0x5C\<close>), the
  slash and the five control letters.\<close>

definition escape :: "nat \<Rightarrow> nat option" where
  "escape e =
     (if e = 0x22 \<or> e = 0x5C \<or> e = cp CHR ''/'' then Some e
      else if e = cp CHR ''b'' then Some 8
      else if e = cp CHR ''f'' then Some 12
      else if e = cp CHR ''n'' then Some 10
      else if e = cp CHR ''r'' then Some 13
      else if e = cp CHR ''t'' then Some 9
      else None)"

definition cons_chunk :: "nat \<Rightarrow> (pystr \<times> pystr) option \<Rightarrow> (pystr \<times> pystr) option" where
  "cons_chunk c res = (case res of None \<Rightarrow> None | Some (str, r) \<Rightarrow> Some (c # str, r))"

text \<open>
  \<open>scanstring\<close> reads a string literal from behind its opening quote and returns the
  decoded string with the text behind the closing quote. A control character is refused
  (strict mode); the escape of a high surrogate by four hex digits joins with a following
  escape of a low surrogate.
\<close>

fun scanstring :: "pystr \<Rightarrow> (pystr \<times> pystr) option" where
  "scanstring [] = None"
| "scanstring (c # cs) =
     (if c = 0x22 then Some ([], cs)
      else if c = 0x5C then
        (case cs of
           [] \<Rightarrow> None
         | e # es \<Rightarrow>
             if e = cp CHR ''u'' then
               (case hex4 es of
                  None \<Rightarrow> None
                | Some u \<Rightarrow>
                    if 0xD800 \<le> u \<and> u \<le> 0xDBFF \<and> 6 < length (drop 4 es)
                       \<and> take 2 (drop 4 es) = [0x5C, cp CHR ''u'']
                    then
                      (case hex4 (drop 6 es) of
                         None \<Rightarrow> None
                       | Some u2 \<Rightarrow>
                           if 0xDC00 \<le> u2 \<and> u2 \<le> 0xDFFF
                           then cons_chunk (0x10000 + (u - 0xD800) * 1024 + (u2 - 0xDC00))
                                  (scanstring (drop 10 es))
                           else cons_chunk u (scanstring (drop 4 es)))
                    else cons_chunk u (scanstring (drop 4 es)))
             else
               (case escape e of
                  None \<Rightarrow> None
                | Some x \<Rightarrow> cons_chunk x (scanstring es)))
      else if c \<le> 0x1F then None
      else cons_chunk c (scanstring cs))"

declare scanstring.simps(2) [simp del]

text \<open>
  A number is an optional minus sign, \<open>0\<close> or a digit string without a leading zero, an
  optional fraction (a dot and at least one digit) and an optional exponent (at least one
  digit); an \<open>e\<close> with no digit behind it is left unread. With a fraction or an exponent
  the text becomes a \<open>float\<close>, otherwise an \<open>int\<close>.
\<close>

definition match_exponent :: "pystr \<Rightarrow> int option \<times> pystr" where
  "match_exponent s =
     (case s of
        [] \<Rightarrow> (None, s)
      | e # es \<Rightarrow>
          if e = cp CHR ''e'' \<or> e = cp CHR ''E'' then
            (let (sg, ds) =
               (case es of
                  [] \<Rightarrow> (1, es)
                | x # xs \<Rightarrow>
                    if x = cp CHR ''-'' then (- 1, xs)
                    else if x = cp CHR ''+'' then (1, xs)
                    else (1, es))
             in if takeWhile isdigit ds = [] then (None, s)
                else (Some (sg * int (digits_value (takeWhile isdigit ds))),
                      dropWhile isdigit ds))
          else (None, s))"

definition match_fraction :: "pystr \<Rightarrow> pystr \<times> pystr" where
  "match_fraction s =
     (case s of
        p # f # fs \<Rightarrow>
          if p = cp CHR ''.'' \<and> isdigit f
          then (f # takeWhile isdigit fs, dropWhile isdigit fs)
          else ([], s)
      | _ \<Rightarrow> ([], s))"

definition scale10 :: "rat \<Rightarrow> int \<Rightarrow> rat" where
  "scale10 m e = (if 0 \<le> e then m * 10 ^ nat e else m / 10 ^ nat (- e))"

definition int_too_long :: "limits \<Rightarrow> pystr \<Rightarrow> bool" where
  "int_too_long L ipart =
     (640 < length ipart \<and> 0 < int_max_str_digits L \<and> int_max_str_digits L < length ipart)"

definition number_value ::
  "limits \<Rightarrow> bool \<Rightarrow> pystr \<Rightarrow> pystr \<Rightarrow> int option \<Rightarrow> py_exception + pyval" where
  "number_value L neg ipart fpart epart =
     (if fpart = [] \<and> epart = None
      then
        (if int_too_long L ipart then Inl ValueError
         else Inr (PyInt ((if neg then - 1 else 1) * int (digits_value ipart))))
      else Inr (PyFloat (Finite (scale10
             ((if neg then - 1 else 1) * of_nat (digits_value (ipart @ fpart))
                / 10 ^ length fpart)
             (case epart of None \<Rightarrow> 0 | Some e \<Rightarrow> e)))))"

definition match_digits ::
  "limits \<Rightarrow> bool \<Rightarrow> pystr \<Rightarrow> py_exception + (pyval \<times> pystr)" where
  "match_digits L neg s =
     (case s of
        [] \<Rightarrow> Inl JSONDecodeError
      | d # ds \<Rightarrow>
          if \<not> isdigit d then Inl JSONDecodeError
          else
            (let ipart = (if d = cp CHR ''0'' then [d] else d # takeWhile isdigit ds);
                 r1 = (if d = cp CHR ''0'' then ds else dropWhile isdigit ds);
                 (fpart, r2) = match_fraction r1;
                 (epart, r3) = match_exponent r2
             in case number_value L neg ipart fpart epart of
                  Inl e \<Rightarrow> Inl e
                | Inr v \<Rightarrow> Inr (v, r3)))"

definition match_number :: "limits \<Rightarrow> pystr \<Rightarrow> py_exception + (pyval \<times> pystr)" where
  "match_number L s =
     (case s of
        [] \<Rightarrow> Inl JSONDecodeError
      | c # cs \<Rightarrow>
          if c = cp CHR ''-'' then match_digits L True cs else match_digits L False s)"

lemma cons_chunk_Some:
  "cons_chunk c res = Some (str, r) \<longleftrightarrow> (\<exists>str'. res = Some (str', r) \<and> str = c # str')"
  by (auto simp: cons_chunk_def split: option.splits)

lemma scanstring_shorter:
  "scanstring s = Some (str, r) \<Longrightarrow> length r < length s"
proof (induction s arbitrary: str r rule: length_induct)
  case (1 s)
  note IH = 1(1)[rule_format]
  show ?case
  proof (cases s)
    case Nil
    with 1(2) show ?thesis by simp
  next
    case (Cons c cs)
    have rec: "length r < length s"
      if "scanstring t = Some (str', r)" "length t < length s" for t str'
      using IH[OF that(2) that(1)] that(2) by simp
    from 1(2) show ?thesis
      unfolding Cons scanstring.simps
      by (auto simp: cons_chunk_Some Cons split: if_splits list.splits option.splits
          dest!: rec[unfolded Cons])
  qed
qed

lemma skip_ws_le: "length (skip_ws s) \<le> length s"
  by (simp add: skip_ws_def length_dropWhile_le)

lemma skip_ws_Cons_shorter: "skip_ws s = d # r \<Longrightarrow> length r < length s"
  using skip_ws_le[of s] by simp

text \<open>
  \<open>scan_once L h\<close> reads one JSON value at the start of the text, with headroom \<open>h\<close>.
  \<open>parse_array\<close> is the loop of \<open>_parse_array\<close>, entered at the first element of a
  non-empty array, and \<open>parse_object\<close> the loop of \<open>_parse_object\<close>, entered at the first
  key; their headroom is what is left inside the array or object. Each turn of a loop
  goes on behind a comma with the text the element left over; the test that this text is
  shorter than the text the turn started with is what HOL needs to accept the recursion.
  It never fails: see \<open>parse_array_unfold\<close> and \<open>parse_object_unfold\<close> below.
\<close>

function scan_once :: "limits \<Rightarrow> nat \<Rightarrow> pystr \<Rightarrow> py_exception + (pyval \<times> pystr)"
  and parse_array :: "limits \<Rightarrow> nat \<Rightarrow> pystr \<Rightarrow> py_exception + (pyval list \<times> pystr)"
  and parse_object ::
    "limits \<Rightarrow> nat \<Rightarrow> pystr \<Rightarrow> py_exception + ((pystr \<times> pyval) list \<times> pystr)"
where
  "scan_once L h [] = Inl JSONDecodeError"
| "scan_once L h (c # cs) =
     (if c = 0x22 then
        (case scanstring cs of
           None \<Rightarrow> Inl JSONDecodeError
         | Some (str, r) \<Rightarrow> Inr (PyStr str, r))
      else if c = cp CHR ''{'' then
        (if h = 0 then Inl RecursionError
         else
           (case skip_ws cs of
              [] \<Rightarrow> Inl JSONDecodeError
            | d # r \<Rightarrow>
                if d = cp CHR ''}'' then Inr (PyDict [], r)
                else
                  (case parse_object L (h - 1) (d # r) of
                     Inl e \<Rightarrow> Inl e
                   | Inr (pairs, r') \<Rightarrow> Inr (PyDict (dict pairs), r'))))
      else if c = cp CHR ''['' then
        (if h = 0 then Inl RecursionError
         else
           (case skip_ws cs of
              [] \<Rightarrow> Inl JSONDecodeError
            | d # r \<Rightarrow>
                if d = cp CHR '']'' then Inr (PyList [], r)
                else
                  (case parse_array L (h - 1) (d # r) of
                     Inl e \<Rightarrow> Inl e
                   | Inr (vs, r') \<Rightarrow> Inr (PyList vs, r'))))
      else if c = cp CHR ''n'' \<and> prefix (py ''ull'') cs then Inr (PyNone, drop 3 cs)
      else if c = cp CHR ''t'' \<and> prefix (py ''rue'') cs then Inr (PyBool True, drop 3 cs)
      else if c = cp CHR ''f'' \<and> prefix (py ''alse'') cs then Inr (PyBool False, drop 4 cs)
      else if c = cp CHR ''N'' \<and> prefix (py ''aN'') cs then Inr (PyFloat NaN, drop 2 cs)
      else if c = cp CHR ''I'' \<and> prefix (py ''nfinity'') cs
        then Inr (PyFloat PosInf, drop 7 cs)
      else if c = cp CHR ''-'' \<and> prefix (py ''Infinity'') cs
        then Inr (PyFloat NegInf, drop 8 cs)
      else match_number L (c # cs))"
| "parse_array L h s =
     (case scan_once L h s of
        Inl e \<Rightarrow> Inl e
      | Inr (v, r) \<Rightarrow>
          (case skip_ws r of
             [] \<Rightarrow> Inl JSONDecodeError
           | d # r' \<Rightarrow>
               if d = cp CHR '']'' then Inr ([v], r')
               else if d = cp CHR '','' \<and> length r' < length s then
                 (case parse_array L h (skip_ws r') of
                    Inl e \<Rightarrow> Inl e
                  | Inr (vs, r'') \<Rightarrow> Inr (v # vs, r''))
               else Inl JSONDecodeError))"
| "parse_object L h s =
     (case s of
        [] \<Rightarrow> Inl JSONDecodeError
      | q # s1 \<Rightarrow>
          if q \<noteq> 0x22 then Inl JSONDecodeError
          else
            (case scanstring s1 of
               None \<Rightarrow> Inl JSONDecodeError
             | Some (key, r) \<Rightarrow>
                 (case skip_ws r of
                    [] \<Rightarrow> Inl JSONDecodeError
                  | colon # r1 \<Rightarrow>
                      if colon \<noteq> cp CHR '':'' then Inl JSONDecodeError
                      else
                        (case scan_once L h (skip_ws r1) of
                           Inl e \<Rightarrow> Inl e
                         | Inr (v, r2) \<Rightarrow>
                             (case skip_ws r2 of
                                [] \<Rightarrow> Inl JSONDecodeError
                              | d # r3 \<Rightarrow>
                                  if d = cp CHR ''}'' then Inr ([(key, v)], r3)
                                  else if d = cp CHR '','' \<and> length r3 < length s then
                                    (case parse_object L h (skip_ws r3) of
                                       Inl e \<Rightarrow> Inl e
                                     | Inr (pairs, r4) \<Rightarrow> Inr ((key, v) # pairs, r4))
                                  else Inl JSONDecodeError)))))"
  by pat_completeness auto
termination
proof (relation "measures
    [\<lambda>x. case x of Inl (L, h, s) \<Rightarrow> length s | Inr (Inl (L, h, s)) \<Rightarrow> length s
         | Inr (Inr (L, h, s)) \<Rightarrow> length s,
     \<lambda>x. case x of Inl a \<Rightarrow> 0 | Inr y \<Rightarrow> Suc 0]", goal_cases)
  case 1
  show ?case by simp
next
  case (2 L h c cs d r)
  then have "skip_ws cs = d # r" by simp
  then have "length (d # r) \<le> length cs"
    using skip_ws_le[of cs] by simp
  then show ?case by simp
next
  case (3 L h c cs d r)
  then have "skip_ws cs = d # r" by simp
  then have "length (d # r) \<le> length cs"
    using skip_ws_le[of cs] by simp
  then show ?case by simp
next
  case (4 L h s)
  show ?case by simp
next
  case (5 L h s x v r d r')
  then have "length r' < length s" by simp
  then have "length (skip_ws r') < length s"
    using skip_ws_le[of r'] by simp
  then show ?case by simp
next
  case (6 L h s q s1 x key r colon r1)
  then have "scanstring s1 = Some (key, r)" and w: "skip_ws r = colon # r1"
    and s: "s = q # s1"
    by simp_all
  then have "length r < length s1"
    using scanstring_shorter by blast
  moreover from w have "length r1 < length r"
    by (rule skip_ws_Cons_shorter)
  moreover have "length (skip_ws r1) \<le> length r1"
    by (rule skip_ws_le)
  ultimately have "length (skip_ws r1) < length s"
    using s by simp
  then show ?case by simp
next
  case (7 L h s q s1 x key r colon r1 y v r2 d r3)
  then have "length r3 < length s" by simp
  then have "length (skip_ws r3) < length s"
    using skip_ws_le[of r3] by simp
  then show ?case by simp
qed

declare scan_once.simps [simp del] parse_array.simps [simp del] parse_object.simps [simp del]

text \<open>
  \<open>json.loads(s)\<close> for a \<open>str\<close>, on an interpreter with the limits \<open>L\<close>: a leading byte
  order mark is refused, white space around the value is skipped, and anything else
  behind the value is an error (extra data). \<open>json_loads\<close> is the decoder at CPython's
  default limits.
\<close>

definition json_loads_with :: "limits \<Rightarrow> pystr \<Rightarrow> py_exception + pyval" where
  "json_loads_with L s =
     (if prefix [0xFEFF] s then Inl JSONDecodeError
      else
        (case scan_once L (recursion_headroom L) (skip_ws s) of
           Inl e \<Rightarrow> Inl e
         | Inr (obj, r) \<Rightarrow> if skip_ws r = [] then Inr obj else Inl JSONDecodeError))"

definition json_loads :: "pystr \<Rightarrow> py_exception + pyval" where
  "json_loads s = json_loads_with cpython_defaults s"

section \<open>Python operations used by the interface code\<close>

text \<open>
  The truth value, \<open>len\<close>, iteration, \<open>.get\<close>, \<open>int\<close> and \<open>str.join\<close> of the values a decoded
  response can hold. An operation that raises returns \<open>Inl\<close> of the exception.
\<close>

fun truthy :: "pyval \<Rightarrow> bool" where
  "truthy PyNone = False"
| "truthy (PyBool b) = b"
| "truthy (PyInt i) = (i \<noteq> 0)"
| "truthy (PyFloat f) = (f \<noteq> Finite 0)"
| "truthy (PyStr s) = (s \<noteq> [])"
| "truthy (PyList xs) = (xs \<noteq> [])"
| "truthy (PyDict kvs) = (kvs \<noteq> [])"

fun py_len :: "pyval \<Rightarrow> py_exception + nat" where
  "py_len (PyStr s) = Inr (length s)"
| "py_len (PyList xs) = Inr (length xs)"
| "py_len (PyDict kvs) = Inr (length kvs)"
| "py_len v = Inl TypeError"

text \<open>Iterating a \<open>dict\<close> yields its keys, iterating a \<open>str\<close> its characters.\<close>

fun py_iter :: "pyval \<Rightarrow> py_exception + pyval list" where
  "py_iter (PyStr s) = Inr (map (\<lambda>c. PyStr [c]) s)"
| "py_iter (PyList xs) = Inr xs"
| "py_iter (PyDict kvs) = Inr (map (\<lambda>kv. PyStr (fst kv)) kvs)"
| "py_iter v = Inl TypeError"

text \<open>\<open>obj.get(key, default)\<close>: only a \<open>dict\<close> has the method.\<close>

fun dict_get :: "pyval \<Rightarrow> pystr \<Rightarrow> pyval \<Rightarrow> py_exception + pyval" where
  "dict_get (PyDict kvs) key dflt =
     Inr (case map_of kvs key of None \<Rightarrow> dflt | Some v \<Rightarrow> v)"
| "dict_get v key dflt = Inl AttributeError"

text \<open>
  \<open>int(x)\<close>. A \<open>float\<close> is truncated towards zero. A \<open>str\<close> is read as a decimal integer:
  white space around it, a sign, digits with single underscores between them. Only the
  ASCII digits are modelled.
\<close>

definition int_space :: "nat \<Rightarrow> bool" where
  "int_space c = ((9 \<le> c \<and> c \<le> 13) \<or> c = 32 \<or> (127 < c \<and> isspace c))"

definition digit_groups :: "pystr \<Rightarrow> bool" where
  "digit_groups body =
     (body \<noteq> [] \<and> isdigit (hd body) \<and> isdigit (last body)
      \<and> list_all (\<lambda>c. isdigit c \<or> c = cp CHR ''_'') body
      \<and> \<not> sublist (py ''__'') body)"

definition int_literal :: "pystr \<Rightarrow> int option" where
  "int_literal s =
     (let t = rev (dropWhile int_space (rev (dropWhile int_space s)));
          (neg, body) =
            (case t of
               [] \<Rightarrow> (False, t)
             | c # cs \<Rightarrow>
                 if c = cp CHR ''-'' then (True, cs)
                 else if c = cp CHR ''+'' then (False, cs)
                 else (False, t))
      in if digit_groups body
         then Some ((if neg then - 1 else 1) * int (digits_value (filter isdigit body)))
         else None)"

fun py_int :: "pyval \<Rightarrow> py_exception + int" where
  "py_int PyNone = Inl TypeError"
| "py_int (PyBool b) = Inr (if b then 1 else 0)"
| "py_int (PyInt i) = Inr i"
| "py_int (PyFloat (Finite q)) = Inr (if 0 \<le> q then \<lfloor>q\<rfloor> else - \<lfloor>- q\<rfloor>)"
| "py_int (PyFloat NaN) = Inl ValueError"
| "py_int (PyFloat PosInf) = Inl OverflowError"
| "py_int (PyFloat NegInf) = Inl OverflowError"
| "py_int (PyStr s) = (case int_literal s of None \<Rightarrow> Inl ValueError | Some i \<Rightarrow> Inr i)"
| "py_int (PyList xs) = Inl TypeError"
| "py_int (PyDict kvs) = Inl TypeError"

text \<open>\<open>sep.join(x)\<close>: \<open>x\<close> must be iterable and every item a \<open>str\<close>.\<close>

fun join :: "pystr \<Rightarrow> pystr list \<Rightarrow> pystr" where
  "join sep [] = []"
| "join sep [x] = x"
| "join sep (x # y # r) = x @ sep @ join sep (y # r)"

fun strs_of :: "pyval list \<Rightarrow> pystr list option" where
  "strs_of [] = Some []"
| "strs_of (PyStr s # r) = (case strs_of r of None \<Rightarrow> None | Some ss \<Rightarrow> Some (s # ss))"
| "strs_of (v # r) = None"

definition str_join :: "pystr \<Rightarrow> pyval \<Rightarrow> py_exception + pystr" where
  "str_join sep x =
     (case py_iter x of
        Inl e \<Rightarrow> Inl e
      | Inr items \<Rightarrow>
          (case strs_of items of None \<Rightarrow> Inl TypeError | Some ss \<Rightarrow> Inr (join sep ss)))"

section \<open>The interface and the backend as a trace\<close>

text \<open>
  The code acts on the outside through Streamlit (\<open>st.\<close>) and the Gemini client
  (\<open>genai.\<close>). A run of a function is modelled by the list of these calls in the order
  they are made, together with the value returned or the exception that left the function
  uncaught. An f-string that formats a decoded value keeps the value (\<open>Fmt\<close>) next to its
  literal pieces (\<open>Lit\<close>). Streamlit's own checks of its arguments are not modelled: a
  call to it never raises here.
\<close>

datatype frag = Lit pystr | Fmt pyval

datatype event =
    St_columns
  | St_text_input
  | St_button
  | St_markdown pystr
  | St_spinner pystr
  | St_error pystr
  | St_warning pystr
  | St_info pystr
  | St_success pystr
  | St_container
  | St_subheader pyval
  | St_caption "frag list"
  | St_write "frag list"
  | St_metric pystr pyval
  | St_divider
  | Genai_configure pystr
  | Genai_model pystr
  | Genai_generate pystr

type_synonym 'a run = "event list \<times> (py_exception + 'a)"

definition returns :: "'a \<Rightarrow> 'a run" where
  "returns a = ([], Inr a)"

definition emit :: "event \<Rightarrow> unit run" where
  "emit e = ([e], Inr ())"

definition outcome :: "py_exception + 'a \<Rightarrow> 'a run" where
  "outcome x = ([], x)"

text \<open>Sequencing: an exception ends the run; the calls made so far stay in the trace.\<close>

definition and_then :: "'a run \<Rightarrow> ('a \<Rightarrow> 'b run) \<Rightarrow> 'b run" where
  "and_then m f =
     (case m of
        (es, Inl x) \<Rightarrow> (es, Inl x)
      | (es, Inr a) \<Rightarrow> (case f a of (es', r) \<Rightarrow> (es @ es', r)))"

lemma and_then_cong [fundef_cong]:
  "m = m' \<Longrightarrow> (\<And>a. f a = f' a) \<Longrightarrow> and_then m f = and_then m' f'"
  by (simp add: and_then_def split: prod.splits sum.splits)

section \<open>The functions of app.py\<close>

text \<open>
  What a run of the script reads from its surroundings: the limits of the interpreter
  it runs on, the environment variable, the
  two sliders of the sidebar, the text field and the button, and how the Gemini client
  answers. \<open>genai_configure\<close> and \<open>genai_model\<close> give the message of the exception the call
  raises, if it raises; \<open>generate_content\<close> gives, for a prompt, the message of the
  exception raised by the call or by reading \<open>response.text\<close> (\<open>Inl\<close>), or the text of the
  response (\<open>Inr\<close>). The exceptions of the client are subclasses of \<open>Exception\<close>.
\<close>

record env =
  interpreter :: limits
  GEMINI_API_KEY :: "pystr option"
  radius_slider :: int
  max_results_slider :: int
  location_input :: pystr
  search_clicked :: bool
  genai_configure :: "pystr \<Rightarrow> pystr option"
  genai_model :: "pystr \<Rightarrow> pystr option"
  generate_content :: "pystr \<Rightarrow> pystr + pystr"

text \<open>\<open>not GEMINI_API_KEY\<close> holds for an unset variable (\<open>None\<close>) and for an empty one.\<close>

definition api_key_missing :: "env \<Rightarrow> bool" where
  "api_key_missing e = (case GEMINI_API_KEY e of None \<Rightarrow> True | Some k \<Rightarrow> k = [])"

definition configure_gemini :: "env \<Rightarrow> pystr option run" where
  "configure_gemini e =
     (case GEMINI_API_KEY e of
        None \<Rightarrow>
          and_then (emit (St_error (py ''API key not configured. Please check your .env file.'')))
            (\<lambda>_. returns None)
      | Some k \<Rightarrow>
          if k = [] then
            and_then (emit (St_error (py ''API key not configured. Please check your .env file.'')))
              (\<lambda>_. returns None)
          else
            and_then (emit (Genai_configure k)) (\<lambda>_.
              case genai_configure e k of
                Some msg \<Rightarrow>
                  and_then (emit (St_error (py ''Error configuring Gemini: '' @ msg)))
                    (\<lambda>_. returns None)
              | None \<Rightarrow>
                  and_then (emit (Genai_model (py ''gemini-2.5-flash''))) (\<lambda>_.
                    case genai_model e (py ''gemini-2.5-flash'') of
                      Some msg \<Rightarrow>
                        and_then (emit (St_error (py ''Error configuring Gemini: '' @ msg)))
                          (\<lambda>_. returns None)
                    | None \<Rightarrow> returns (Some (py ''gemini-2.5-flash'')))))"

definition get_gemini_response :: "env \<Rightarrow> pystr \<Rightarrow> pystr option run" where
  "get_gemini_response e prompt =
     and_then (emit (Genai_generate prompt)) (\<lambda>_.
       case generate_content e prompt of
         Inr text \<Rightarrow> returns (Some text)
       | Inl msg \<Rightarrow>
           and_then (emit (St_error (py ''API Error: '' @ msg))) (\<lambda>_. returns None))"

text \<open>
  \<open>parse_stays_response\<close>: both markers are replaced by the empty string, the text is
  stripped and decoded. Only \<open>json.JSONDecodeError\<close> is caught: the error is shown and the
  empty list returned; any other exception of the decoder leaves the function. Whatever
  the decoder returns is returned as it is. \<open>parse_stays_response_with L\<close> is the function on
  an interpreter with the limits \<open>L\<close>, \<open>parse_stays_response\<close> the function at CPython's
  default limits.
\<close>

definition clean_text :: "pystr \<Rightarrow> pystr" where
  "clean_text response_text = strip (replace (replace response_text fence_json []) fence [])"

definition parse_failed :: event where
  "parse_failed = St_error (py ''Failed to parse AI response. Please try again.'')"

definition parse_stays_response_with :: "limits \<Rightarrow> pystr \<Rightarrow> pyval run" where
  "parse_stays_response_with L response_text =
     (case json_loads_with L (clean_text response_text) of
        Inr v \<Rightarrow> returns v
      | Inl e \<Rightarrow>
          if e = JSONDecodeError
          then and_then (emit parse_failed) (\<lambda>_. returns (PyList []))
          else ([], Inl e))"

definition parse_stays_response :: "pystr \<Rightarrow> pyval run" where
  "parse_stays_response response_text = parse_stays_response_with cpython_defaults response_text"

text \<open>The star is \<open>U+2B50\<close>, the bullet between amenities \<open>U+2022\<close>.\<close>

definition render_stay :: "pyval \<Rightarrow> unit run" where
  "render_stay stay =
     and_then (emit St_container) (\<lambda>_.
     and_then (emit St_columns) (\<lambda>_.
     and_then (outcome (dict_get stay (py ''name'') (PyStr (py ''Unknown Stay'')))) (\<lambda>name.
     and_then (emit (St_subheader name)) (\<lambda>_.
     and_then (outcome (dict_get stay (py ''type'') (PyStr (py ''Hotel'')))) (\<lambda>stay_type.
     and_then (outcome (dict_get stay (py ''distance_km'') (PyInt 0))) (\<lambda>distance_km.
     and_then (emit (St_caption
        [Lit (py ''**''), Fmt stay_type, Lit (py ''** '' @ [0x2022] @ py '' ''),
         Fmt distance_km, Lit (py '' km from center'')])) (\<lambda>_.
     and_then (outcome (dict_get stay (py ''rating'') (PyInt 0))) (\<lambda>rating.
     and_then (outcome (py_int rating)) (\<lambda>n.
     and_then (emit (St_write
        [Lit (replicate (nat n) 0x2B50), Lit (py '' (''), Fmt rating, Lit (py ''/5)'')])) (\<lambda>_.
     and_then (outcome (dict_get stay (py ''description'') (PyStr []))) (\<lambda>description.
     and_then (emit (St_write [Fmt description])) (\<lambda>_.
     and_then (outcome (dict_get stay (py ''amenities'') (PyList []))) (\<lambda>amenities.
     and_then
       (if truthy amenities then
          and_then (outcome (str_join (py '' '' @ [0x2022] @ py '' '') amenities)) (\<lambda>joined.
            emit (St_write [Lit (py ''**Amenities:** '' @ joined)]))
        else returns ()) (\<lambda>_.
     and_then (emit (St_markdown (py ''###''))) (\<lambda>_.
     and_then (outcome (dict_get stay (py ''price_range'') (PyStr (py ''N/A'')))) (\<lambda>price_range.
     emit (St_metric (py ''Price'') price_range)))))))))))))))))"

text \<open>The loop over \<open>enumerate(stays)\<close>: \<open>i\<close> is the index, \<open>n\<close> is \<open>len(stays)\<close>.\<close>

fun display_loop :: "nat \<Rightarrow> nat \<Rightarrow> pyval list \<Rightarrow> unit run" where
  "display_loop i n [] = returns ()"
| "display_loop i n (stay # rest) =
     and_then (render_stay stay) (\<lambda>_.
     and_then (if int i < int n - 1 then emit St_divider else returns ()) (\<lambda>_.
     display_loop (Suc i) n rest))"

definition display_stays :: "pyval \<Rightarrow> pystr \<Rightarrow> unit run" where
  "display_stays stays location =
     and_then (outcome (py_len stays)) (\<lambda>n.
     and_then (emit (St_success
        (py ''Found '' @ str_int (int n) @ py '' stays near '' @ location))) (\<lambda>_.
     and_then (outcome (py_iter stays)) (\<lambda>items.
     display_loop 0 n items)))"

text \<open>
  \<open>main\<close>, one run of the script. The cross mark is \<open>U+274C\<close>, the magnifying glass
  \<open>U+1F50D\<close>, the light bulb \<open>U+1F4A1\<close>.
\<close>

definition search :: "env \<Rightarrow> unit run" where
  "search e =
     and_then (emit (St_spinner
        ([0x1F50D] @ py '' AI is scanning for stays in '' @ location_input e @ py ''...''))) (\<lambda>_.
     and_then (configure_gemini e) (\<lambda>model.
       case model of
         None \<Rightarrow> returns ()
       | Some m \<Rightarrow>
           and_then (get_gemini_response e
              (generate_stays_prompt (location_input e) (radius_slider e) (max_results_slider e)))
           (\<lambda>raw_response.
              case raw_response of
                None \<Rightarrow> returns ()
              | Some raw \<Rightarrow>
                  if raw = [] then returns ()
                  else
                    and_then (parse_stays_response_with (interpreter e) raw) (\<lambda>stays_data.
                      if truthy stays_data then display_stays stays_data (location_input e)
                      else emit (St_warning
                             (py ''No data returned. Try a different location.''))))))"

definition main :: "env \<Rightarrow> unit run" where
  "main e =
     and_then (emit St_columns) (\<lambda>_.
     and_then (emit St_text_input) (\<lambda>_.
     and_then (emit (St_markdown (py ''###''))) (\<lambda>_.
     and_then (emit St_button) (\<lambda>_.
       if search_clicked e \<and> location_input e \<noteq> [] then
         if api_key_missing e then emit (St_error ([0x274C] @ py '' API key missing.''))
         else search e
       else if location_input e = [] then
         emit (St_info ([0x1F4A1] @
           py '' **Try searching for:** Kyoto, Downtown Chicago, Paris Latin Quarter''))
       else returns ()))))"

section \<open>Runs used as examples\<close>

text \<open>
  A run on an interpreter with CPython's default limits in which the key is set, the user
  has entered \<open>Paris\<close> and pressed the button, the client is configured without an error
  and the backend answers every prompt with the given text.
\<close>

definition answering :: "pystr \<Rightarrow> env" where
  "answering text =
     \<lparr>interpreter = cpython_defaults, GEMINI_API_KEY = Some (py ''key''),
      radius_slider = 10, max_results_slider = 8,
      location_input = py ''Paris'', search_clicked = True,
      genai_configure = (\<lambda>k. None), genai_model = (\<lambda>m. None),
      generate_content = (\<lambda>prompt. Inr text)\<rparr>"

text \<open>The calls that reach the Gemini client.\<close>

definition backend_call :: "event \<Rightarrow> bool" where
  "backend_call ev =
     (case ev of
        Genai_configure k \<Rightarrow> True
      | Genai_model m \<Rightarrow> True
      | Genai_generate p \<Rightarrow> True
      | _ \<Rightarrow> False)"

text \<open>
  Texts in which the backtick occurs only in fence markers. Such a text is a first piece
  \<open>p0\<close> followed by pairs of a marker and a piece: the marker is the opener \<open>```json\<close> or
  the bare fence \<open>```\<close>, the piece holds no backtick, and a piece after a bare fence does
  not begin with \<open>json\<close> (the two together would be the opener). \<open>fenced_text\<close> is the
  text with its markers, \<open>plain_text\<close> the same pieces without them.
\<close>

definition fenced_piece :: "pystr \<times> pystr \<Rightarrow> bool" where
  "fenced_piece mp =
     (case mp of (m, p) \<Rightarrow>
        (m = fence_json \<or> (m = fence \<and> \<not> prefix (py ''json'') p)) \<and> 96 \<notin> set p)"

definition fenced_text :: "pystr \<Rightarrow> (pystr \<times> pystr) list \<Rightarrow> pystr" where
  "fenced_text p0 mps = p0 @ concat (map (\<lambda>(m, p). m @ p) mps)"

definition plain_text :: "pystr \<Rightarrow> (pystr \<times> pystr) list \<Rightarrow> pystr" where
  "plain_text p0 mps = p0 @ concat (map snd mps)"

text \<open>
  An example: the text \<open>{"a": ```json\<close>, line break, \<open>["x```y"]\<close>, line break, \<open>```}\<close>
  with the first piece \<open>{"a": \<close>.
\<close>

definition fenced_example :: "(pystr \<times> pystr) list" where
  \<open>fenced_example =
     [(fence_json, 10 # py ''["x''), (fence, py ''y"]'' @ [10]), (fence, py ''}'')]\<close>

section \<open>Lemmas on replace and strip\<close>

text \<open>One step of the scan: at a match the occurrence is dropped, elsewhere one character
  is kept.\<close>

lemma replace_scan_match:
  assumes "old \<noteq> []" "prefix old s"
  shows "replace_scan s old new = new @ replace_scan (drop (length old) s) old new"
proof (cases s)
  case Nil
  with assms show ?thesis by simp
next
  case (Cons c cs)
  with assms show ?thesis by (simp add: replace_scan.simps(2))
qed

lemma replace_scan_skip:
  assumes "\<not> (old \<noteq> [] \<and> prefix old (c # cs))"
  shows "replace_scan (c # cs) old new = c # replace_scan cs old new"
  using assms by (auto simp: replace_scan.simps(2))

lemma drop_prefix_append:
  assumes "prefix old s"
  shows "drop (length old) (s @ t) = drop (length old) s @ t"
proof -
  from assms have "length old \<le> length s" by (rule prefix_length_le)
  then show ?thesis by simp
qed

lemma prefix_append_keep:
  assumes "old \<noteq> []" "last old \<notin> set B"
  shows "prefix old (X @ B) \<longleftrightarrow> prefix old X"
proof
  assume "prefix old (X @ B)"
  then consider "prefix old X" | us where "old = X @ us" "prefix us B"
    by (auto simp: prefix_append)
  then show "prefix old X"
  proof cases
    case 1
    then show ?thesis .
  next
    case 2
    show ?thesis
    proof (cases "us = []")
      case True
      with 2 show ?thesis by simp
    next
      case False
      with 2 have "last old = last us" by simp
      moreover from False have "last us \<in> set us" by simp
      moreover from 2 have "set us \<subseteq> set B" by (simp add: set_mono_prefix)
      ultimately show ?thesis using assms by auto
    qed
  qed
next
  assume "prefix old X"
  then show "prefix old (X @ B)" by simp
qed

lemma replace_scan_absent:
  "\<not> sublist old s \<Longrightarrow> replace_scan s old new = s"
proof (induction s)
  case Nil
  show ?case by simp
next
  case (Cons c cs)
  then have "\<not> prefix old (c # cs)" "\<not> sublist old cs"
    by (auto simp: sublist_Cons_right)
  with Cons.IH show ?case by (simp add: replace_scan_skip)
qed

lemma replace_scan_append_keep:
  assumes "old \<noteq> []" "last old \<notin> set B"
  shows "replace_scan (X @ B) old new = replace_scan X old new @ B"
  using assms
proof (induction X old new rule: replace_scan.induct)
  case (1 old new)
  have "\<not> sublist old B"
  proof
    assume "sublist old B"
    then have "set old \<subseteq> set B" by (rule set_mono_sublist)
    with 1 show False using last_in_set by blast
  qed
  then show ?case by (simp add: replace_scan_absent)
next
  case (2 c cs old new)
  have p: "prefix old ((c # cs) @ B) \<longleftrightarrow> prefix old (c # cs)"
    using 2(3,4) by (rule prefix_append_keep)
  show ?case
  proof (cases "prefix old (c # cs)")
    case True
    with p have "prefix old ((c # cs) @ B)" by simp
    then have "replace_scan ((c # cs) @ B) old new
        = new @ replace_scan (drop (length old) ((c # cs) @ B)) old new"
      using 2(3) by (rule replace_scan_match[rotated])
    also have "\<dots> = new @ replace_scan (drop (length old) (c # cs) @ B) old new"
      using True by (simp only: drop_prefix_append)
    also have "\<dots> = new @ replace_scan (drop (length old) (c # cs)) old new @ B"
      using 2(1)[OF _ 2(3,4)] True 2(3) by simp
    also have "\<dots> = replace_scan (c # cs) old new @ B"
      using True 2(3) by (simp add: replace_scan_match)
    finally show ?thesis .
  next
    case False
    with p have "\<not> (old \<noteq> [] \<and> prefix old (c # cs @ B))" by simp
    then have "replace_scan (c # cs @ B) old new = c # replace_scan (cs @ B) old new"
      by (rule replace_scan_skip)
    moreover from False have "replace_scan (c # cs) old new = c # replace_scan cs old new"
      by (simp add: replace_scan_skip)
    moreover from False have "replace_scan (cs @ B) old new = replace_scan cs old new @ B"
      using 2(2)[OF _ 2(3,4)] by simp
    ultimately show ?thesis by simp
  qed
qed

lemma replace_scan_self: "old \<noteq> [] \<Longrightarrow> replace_scan old old new = new"
  by (simp add: replace_scan_match)

lemma replace_scan_append_run:
  assumes "old = replicate k c" "0 < k" "new = []"
  shows "replace_scan (Y @ old) old new = replace_scan Y old new"
  using assms
proof (induction Y old new rule: replace_scan.induct)
  case (1 old new)
  then have "old \<noteq> []" by auto
  with 1 show ?case by (simp add: replace_scan_self)
next
  case (2 y ys old new)
  from 2(3,4) have ne: "old \<noteq> []" by auto
  show ?case
  proof (cases "prefix old (y # ys)")
    case True
    then have "prefix old ((y # ys) @ old)" by (rule prefix_prefix)
    then have "replace_scan ((y # ys) @ old) old new
        = new @ replace_scan (drop (length old) ((y # ys) @ old)) old new"
      using ne by (rule replace_scan_match[rotated])
    also have "\<dots> = new @ replace_scan (drop (length old) (y # ys) @ old) old new"
      using True by (simp only: drop_prefix_append)
    also have "\<dots> = new @ replace_scan (drop (length old) (y # ys)) old new"
      using 2(1)[OF _ 2(3,4,5)] True ne by simp
    also have "\<dots> = replace_scan (y # ys) old new"
      using True ne by (simp add: replace_scan_match)
    finally show ?thesis .
  next
    case False
    show ?thesis
    proof (cases "prefix old ((y # ys) @ old)")
      case True
      with False obtain us where us: "old = (y # ys) @ us"
        using prefix_append[of old "y # ys" old] by auto
      define n where "n = length (y # ys)"
      from us have t: "y # ys = take n old" by (simp add: n_def)
      from us have "n \<le> length old" by (simp add: n_def)
      with 2(3) have "min n k = n" by simp
      with t have Z: "y # ys = replicate n c"
        unfolding 2(3) take_replicate by simp
      have sw: "replicate n c @ replicate k c = replicate k c @ replicate n c"
        by (simp add: replicate_add[symmetric] add.commute)
      have "(y # ys) @ old = old @ (y # ys)"
        unfolding Z 2(3) by (rule sw)
      then have "drop (length old) ((y # ys) @ old) = drop (length old) (old @ (y # ys))"
        by (simp only:)
      then have "drop (length old) ((y # ys) @ old) = y # ys"
        by simp
      moreover have "replace_scan ((y # ys) @ old) old new
          = new @ replace_scan (drop (length old) ((y # ys) @ old)) old new"
        using ne True by (rule replace_scan_match)
      ultimately show ?thesis using 2(5) by simp
    next
      case False2: False
      then have "\<not> (old \<noteq> [] \<and> prefix old (y # ys @ old))" by simp
      then have "replace_scan (y # ys @ old) old new = y # replace_scan (ys @ old) old new"
        by (rule replace_scan_skip)
      moreover from False have "replace_scan (y # ys) old new = y # replace_scan ys old new"
        by (simp add: replace_scan_skip)
      moreover from False have "replace_scan (ys @ old) old new = replace_scan ys old new"
        using 2(2)[OF _ 2(3,4,5)] by simp
      ultimately show ?thesis by simp
    qed
  qed
qed

lemma prefix_append_sep:
  assumes "old = replicate k c" "z \<noteq> c"
  shows "prefix old (Y @ z # Z) \<longleftrightarrow> prefix old Y"
proof
  assume "prefix old (Y @ z # Z)"
  then consider "prefix old Y" | us where "old = Y @ us" "prefix us (z # Z)"
    by (auto simp: prefix_append)
  then show "prefix old Y"
  proof cases
    case 1
    then show ?thesis .
  next
    case 2
    show ?thesis
    proof (cases us)
      case Nil
      with 2 show ?thesis by simp
    next
      case (Cons u us')
      with 2 have "u = z" by simp
      with Cons 2 have "z \<in> set old" by simp
      with assms show ?thesis by simp
    qed
  qed
next
  assume "prefix old Y"
  then show "prefix old (Y @ z # Z)" by simp
qed

lemma replace_scan_append_sep:
  assumes "old = replicate k c" "z \<noteq> c"
  shows "replace_scan (Y @ z # Z) old new = replace_scan Y old new @ replace_scan (z # Z) old new"
  using assms
proof (induction Y old new rule: replace_scan.induct)
  case (1 old new)
  show ?case by simp
next
  case (2 y ys old new)
  have p: "prefix old ((y # ys) @ z # Z) \<longleftrightarrow> prefix old (y # ys)"
    using 2(3,4) by (rule prefix_append_sep)
  show ?case
  proof (cases "old \<noteq> [] \<and> prefix old (y # ys)")
    case True
    with p have "prefix old ((y # ys) @ z # Z)" by simp
    then have "replace_scan ((y # ys) @ z # Z) old new
        = new @ replace_scan (drop (length old) ((y # ys) @ z # Z)) old new"
      using True by (simp add: replace_scan_match)
    also have "\<dots> = new @ replace_scan (drop (length old) (y # ys) @ z # Z) old new"
      using True by (simp only: drop_prefix_append)
    also have "\<dots> = new @ replace_scan (drop (length old) (y # ys)) old new
        @ replace_scan (z # Z) old new"
      using 2(1)[OF True 2(3,4)] by simp
    also have "\<dots> = replace_scan (y # ys) old new @ replace_scan (z # Z) old new"
      using True by (simp add: replace_scan_match)
    finally show ?thesis .
  next
    case False
    with p have "\<not> (old \<noteq> [] \<and> prefix old (y # ys @ z # Z))" by simp
    then have "replace_scan (y # ys @ z # Z) old new = y # replace_scan (ys @ z # Z) old new"
      by (rule replace_scan_skip)
    moreover from False have "replace_scan (y # ys) old new = y # replace_scan ys old new"
      by (rule replace_scan_skip)
    moreover have "replace_scan (ys @ z # Z) old new
        = replace_scan ys old new @ replace_scan (z # Z) old new"
      using 2(2)[OF False 2(3,4)] .
    ultimately show ?thesis by simp
  qed
qed

lemma replace_scan_run_prefix:
  assumes "old = replicate k c" "new = []"
  shows "0 < j \<Longrightarrow> j \<le> k \<Longrightarrow> \<not> prefix (replicate j c) s
    \<Longrightarrow> \<not> prefix (replicate j c) (replace_scan s old new)"
  using assms
proof (induction s old new arbitrary: j rule: replace_scan.induct)
  case (1 old new)
  then show ?case by simp
next
  case (2 y ys old new)
  show ?case
  proof (cases "old \<noteq> [] \<and> prefix old (y # ys)")
    case True
    have "replicate k c = replicate j c @ replicate (k - j) c"
      using 2(4) by (simp add: replicate_add[symmetric])
    with True 2(6) have "prefix (replicate j c) (y # ys)"
      by (metis append_prefixD)
    with 2(5) show ?thesis by simp
  next
    case False
    then have r: "replace_scan (y # ys) old new = y # replace_scan ys old new"
      by (rule replace_scan_skip)
    obtain j' where j': "j = Suc j'" using 2(3) by (cases j) auto
    show ?thesis
    proof (cases "y = c")
      case neq: False
      then show ?thesis by (simp add: r j')
    next
      case eq: True
      show ?thesis
      proof (cases j')
        case 0
        with 2(5) j' eq show ?thesis by simp
      next
        case (Suc j'')
        have "\<not> prefix (replicate j' c) ys"
          using 2(5) j' eq by simp
        then have "\<not> prefix (replicate j' c) (replace_scan ys old new)"
          using 2(2)[OF False, of j'] Suc j' 2(4,6,7) by simp
        then show ?thesis unfolding r by (simp add: j' eq)
      qed
    qed
  qed
qed

lemma replace_scan_no_prefix:
  assumes "old = replicate k c" "0 < k" "new = []"
  shows "\<not> prefix old (replace_scan s old new)"
  using assms
proof (induction s old new rule: replace_scan.induct)
  case (1 old new)
  then show ?case by auto
next
  case (2 y ys old new)
  show ?case
  proof (cases "old \<noteq> [] \<and> prefix old (y # ys)")
    case True
    with 2(1)[OF True 2(3,4,5)] 2(5) show ?thesis
      by (simp add: replace_scan_match)
  next
    case False
    with 2(3,4) have "\<not> prefix (replicate k c) (y # ys)" by auto
    then have "\<not> prefix (replicate k c) (replace_scan (y # ys) old new)"
      using replace_scan_run_prefix[OF 2(3) 2(5), of k "y # ys"] 2(4) by simp
    with 2(3) show ?thesis by simp
  qed
qed

lemma replace_scan_removes_all:
  assumes "old = replicate k c" "0 < k" "new = []"
  shows "\<not> sublist old (replace_scan s old new)"
  using assms
proof (induction s old new rule: replace_scan.induct)
  case (1 old new)
  then show ?case by auto
next
  case (2 y ys old new)
  show ?case
  proof (cases "old \<noteq> [] \<and> prefix old (y # ys)")
    case True
    with 2(1)[OF True 2(3,4,5)] 2(5) show ?thesis
      by (simp add: replace_scan_match)
  next
    case False
    then have r: "replace_scan (y # ys) old new = y # replace_scan ys old new"
      by (rule replace_scan_skip)
    have "\<not> prefix old (replace_scan (y # ys) old new)"
      using 2(3,4,5) by (rule replace_scan_no_prefix)
    moreover have "\<not> sublist old (replace_scan ys old new)"
      using 2(2)[OF False 2(3,4,5)] .
    ultimately show ?thesis
      unfolding r by (simp add: sublist_Cons_right)
  qed
qed

lemma strip_space_front: "isspace w \<Longrightarrow> strip (w # s) = strip s"
  by (simp add: strip_def)

lemma strip_space_back:
  assumes "isspace w"
  shows "strip (s @ [w]) = strip s"
proof (cases "\<forall>x\<in>set s. isspace x")
  case True
  then have d: "dropWhile isspace s = []" by simp
  show ?thesis using True assms by (simp add: strip_def dropWhile_append d)
next
  case False
  with assms show ?thesis
    by (auto simp: strip_def dropWhile_append)
qed

section \<open>Properties of the prompt\<close>

lemma sublist_append_skip: "sublist xs ys \<Longrightarrow> sublist xs (ps @ ys)"
  by (metis append.assoc sublist_def)

lemma prompt_has_location:
  "sublist location (generate_stays_prompt location radius max_results)"
  unfolding generate_stays_prompt_def
  by (rule sublist_append_skip, rule sublist_append_skip, rule sublist_append_skip,
      rule sublist_append_rightI)

lemma prompt_has_radius:
  "sublist (str_int radius) (generate_stays_prompt location radius max_results)"
  unfolding generate_stays_prompt_def
  by (rule sublist_append_skip, rule sublist_append_skip, rule sublist_append_skip,
      rule sublist_append_skip, rule sublist_append_skip, rule sublist_append_rightI)

lemma prompt_has_max_results:
  "sublist (str_int max_results) (generate_stays_prompt location radius max_results)"
  unfolding generate_stays_prompt_def
  by (rule sublist_append_skip, rule sublist_append_rightI)

lemma prompt_has_fence_json:
  "sublist fence_json (generate_stays_prompt location radius max_results)"
  unfolding generate_stays_prompt_def
  by (rule sublist_append_skip, rule sublist_append_skip, rule sublist_append_skip,
      rule sublist_append_skip, rule sublist_append_skip, rule sublist_append_skip,
      rule sublist_append_skip, rule sublist_append_rightI)

lemma prompt_has_fence:
  "sublist fence (generate_stays_prompt location radius max_results)"
  unfolding generate_stays_prompt_def
  by (rule sublist_append_skip, rule sublist_append_skip, rule sublist_append_skip,
      rule sublist_append_skip, rule sublist_append_skip, rule sublist_append_skip,
      rule sublist_append_skip, rule sublist_append_skip, rule sublist_append_skip,
      rule sublist_append_rightI)

lemma str_int_examples:
  "str_int 10 = py ''10''" "str_int 8 = py ''8''" "str_int (- 25) = py ''-25''"
  by (simp_all add: str_int_def py_def digits10.simps)

text \<open>
  Claim C1, as amended. For every location, radius and number of results the prompt
  contains the location verbatim and the decimal numerals of the radius and of the number
  of results. It also contains both fence markers, \<open>```json\<close> and \<open>```\<close>, for every input:
  they stand in the sentence that tells the backend not to use markdown formatting. So
  the prompt is never free of fence markers.
\<close>

theorem generate_stays_prompt_contents:
  "sublist location (generate_stays_prompt location radius max_results)
   \<and> sublist (str_int radius) (generate_stays_prompt location radius max_results)
   \<and> sublist (str_int max_results) (generate_stays_prompt location radius max_results)
   \<and> sublist fence_json (generate_stays_prompt location radius max_results)
   \<and> sublist fence (generate_stays_prompt location radius max_results)"
  by (intro conjI prompt_has_location prompt_has_radius prompt_has_max_results
      prompt_has_fence_json prompt_has_fence)

text \<open>
  Claim C1 as it was stated fails at the valid input \<open>("Paris", 10, 8)\<close>: the prompt for
  it is not free of fence markers.
\<close>

theorem generate_stays_prompt_fence_counterexample:
  "\<not> (sublist (py ''Paris'') (generate_stays_prompt (py ''Paris'') 10 8)
      \<and> sublist (py ''10'') (generate_stays_prompt (py ''Paris'') 10 8)
      \<and> sublist (py ''8'') (generate_stays_prompt (py ''Paris'') 10 8)
      \<and> \<not> sublist (py ''```json'') (generate_stays_prompt (py ''Paris'') 10 8)
      \<and> \<not> sublist (py ''```'') (generate_stays_prompt (py ''Paris'') 10 8))"
  using prompt_has_fence_json[of "py ''Paris''" 10 8] by (simp add: fence_json_def)

section \<open>Cleaning the response text\<close>

lemma fence_run: "fence = replicate 3 96"
  by (simp add: fence_def py_def numeral_3_eq_3)

lemma fence_json_chars: "fence_json = [96, 96, 96, 106, 115, 111, 110]"
  by (simp add: fence_json_def py_def)

lemma isspace_not_fence: "isspace c \<Longrightarrow> c \<noteq> 96 \<and> c \<noteq> 110"
  by (auto simp: isspace_def)

lemma replace_scan_skip_prefix:
  assumes "old \<noteq> []" "hd old \<notin> set w"
  shows "replace_scan (w @ R) old new = w @ replace_scan R old new"
  using assms
proof (induction w)
  case Nil
  show ?case by simp
next
  case (Cons x w)
  from Cons.prems have "\<not> prefix old (x # w @ R)"
    by (cases old) auto
  then have "replace_scan (x # w @ R) old new = x # replace_scan (w @ R) old new"
    by (simp add: replace_scan_skip)
  with Cons show ?case by simp
qed

lemma strip_spaces_front: "list_all isspace w \<Longrightarrow> strip (w @ s) = strip s"
  by (induction w) (simp_all add: strip_space_front)

lemma strip_spaces_back: "list_all isspace w \<Longrightarrow> strip (s @ w) = strip s"
proof (induction w rule: rev_induct)
  case Nil
  show ?case by simp
next
  case (snoc x w)
  then have "strip ((s @ w) @ [x]) = strip (s @ w)"
    using strip_space_back[of x "s @ w"] by simp
  with snoc show ?case by simp
qed

lemma replace_fence_json_wrapped:
  assumes "list_all isspace w1" "list_all isspace w2"
  shows "replace (fence_json @ w1 @ X @ w2 @ fence) fence_json []
    = w1 @ replace X fence_json [] @ w2 @ fence"
proof -
  have ne: "fence_json \<noteq> []" by (simp add: fence_json_chars)
  have hd1: "hd fence_json \<notin> set w1"
    using assms(1) isspace_not_fence by (auto simp: fence_json_chars list_all_iff)
  have last2: "last fence_json \<notin> set (w2 @ fence)"
    using assms(2) isspace_not_fence by (auto simp: fence_json_chars fence_run list_all_iff)
  have "replace_scan (fence_json @ w1 @ X @ w2 @ fence) fence_json []
      = replace_scan (drop (length fence_json) (fence_json @ w1 @ X @ w2 @ fence)) fence_json []"
    using replace_scan_match[OF ne, of "fence_json @ w1 @ X @ w2 @ fence" "[]"] by simp
  also have "\<dots> = replace_scan (w1 @ X @ w2 @ fence) fence_json []"
    by simp
  also have "\<dots> = w1 @ replace_scan (X @ w2 @ fence) fence_json []"
    using ne hd1 by (rule replace_scan_skip_prefix)
  also have "replace_scan (X @ w2 @ fence) fence_json [] = replace_scan X fence_json [] @ w2 @ fence"
    using ne last2 by (rule replace_scan_append_keep)
  finally show ?thesis using ne by (simp add: replace_def)
qed

lemma replace_fence_wrapped:
  assumes "list_all isspace w1" "list_all isspace w2"
  shows "replace (w1 @ Y @ w2 @ fence) fence [] = w1 @ replace Y fence [] @ w2"
proof -
  have ne: "fence \<noteq> []" by (simp add: fence_run)
  have hd1: "hd fence \<notin> set w1"
    using assms(1) isspace_not_fence by (auto simp: fence_run list_all_iff)
  have hd2: "hd fence \<notin> set w2"
    using assms(2) isspace_not_fence by (auto simp: fence_run list_all_iff)
  have tail: "replace_scan (w2 @ fence) fence [] = w2"
    using replace_scan_skip_prefix[OF ne hd2, of fence "[]"] ne
    by (simp add: replace_scan_self)
  have "replace_scan (Y @ w2 @ fence) fence [] = replace_scan Y fence [] @ w2"
  proof (cases w2)
    case Nil
    then show ?thesis
      using replace_scan_append_run[OF fence_run, of "[]" Y] by simp
  next
    case (Cons z Z)
    with hd2 have "z \<noteq> 96" by (simp add: fence_run)
    then have "replace_scan (Y @ z # Z @ fence) fence []
        = replace_scan Y fence [] @ replace_scan (z # Z @ fence) fence []"
      by (rule replace_scan_append_sep[OF fence_run])
    with tail Cons show ?thesis by simp
  qed
  moreover have "replace_scan (w1 @ Y @ w2 @ fence) fence [] = w1 @ replace_scan (Y @ w2 @ fence) fence []"
    using ne hd1 by (rule replace_scan_skip_prefix)
  ultimately show ?thesis using ne by (simp add: replace_def)
qed

lemma clean_text_wrapped:
  assumes "list_all isspace w1" "list_all isspace w2"
  shows "clean_text (fence_json @ w1 @ X @ w2 @ fence) = clean_text X"
  unfolding clean_text_def
  by (simp only: replace_fence_json_wrapped[OF assms] replace_fence_wrapped[OF assms])
     (simp add: strip_spaces_front[OF assms(1)] strip_spaces_back[OF assms(2)]
        append_assoc[symmetric] del: append_assoc)

lemma strip_sublist: "sublist (strip s) s"
proof -
  have "sublist (rev (dropWhile isspace (rev (dropWhile isspace s)))) (dropWhile isspace s)"
    by (simp add: sublist_rev_left)
  moreover have "sublist (dropWhile isspace s) s" by simp
  ultimately show ?thesis
    unfolding strip_def by (rule sublist_order.order.trans)
qed

lemma clean_text_no_fence: "\<not> sublist fence (clean_text s)"
proof
  assume "sublist fence (clean_text s)"
  then have "sublist fence (replace (replace s fence_json []) fence [])"
    unfolding clean_text_def using strip_sublist sublist_order.order.trans by blast
  moreover have "\<not> sublist fence (replace_scan (replace s fence_json []) fence [])"
    by (rule replace_scan_removes_all[OF fence_run]) simp_all
  ultimately show False by (simp add: replace_def fence_run)
qed

lemma clean_text_no_fence_input:
  assumes "\<not> sublist fence s"
  shows "clean_text s = strip s"
proof -
  have "sublist fence fence_json"
    by (simp add: fence_run fence_json_chars sublist_Cons_right numeral_3_eq_3)
  with assms have "\<not> sublist fence_json s"
    using sublist_order.order.trans by blast
  then have "replace s fence_json [] = s"
    by (simp add: replace_def replace_scan_absent fence_json_chars)
  moreover from assms have "replace s fence [] = s"
    by (simp add: replace_def replace_scan_absent fence_run)
  ultimately show ?thesis by (simp add: clean_text_def)
qed

text \<open>
  The two passes on a text whose backticks all belong to fence markers: the first deletes
  the openers and keeps everything else, the second deletes the bare fences, and what is
  left are the pieces in their order.
\<close>

lemma fenced_tail_shape:
  assumes "list_all fenced_piece mps"
  shows "concat (map (\<lambda>(m, p). m @ p) mps) = []
         \<or> prefix fence (concat (map (\<lambda>(m, p). m @ p) mps))"
proof (cases mps)
  case Nil
  then show ?thesis by simp
next
  case (Cons mp rest)
  obtain m p where mp: "mp = (m, p)" by (cases mp)
  from assms Cons mp have "m = fence_json \<or> m = fence"
    by (auto simp: fenced_piece_def)
  then have "prefix fence m"
    by (auto simp: fence_run fence_json_chars numeral_3_eq_3)
  then show ?thesis using Cons mp by (auto simp: prefix_def)
qed

lemma fence_not_opener:
  assumes p: "96 \<notin> set p" and j: "\<not> prefix (py ''json'') p"
    and T: "T = [] \<or> prefix fence T"
  shows "\<not> prefix fence_json (96 # 96 # 96 # p @ T)"
    and "\<not> prefix fence_json (96 # 96 # p @ T)"
    and "\<not> prefix fence_json (96 # p @ T)"
proof -
  have a: "\<not> prefix [106, 115, 111, 110] (p @ T)"
  proof
    assume "prefix [106, 115, 111, 110] (p @ T)"
    then have "prefix [106, 115, 111, 110] p
        \<or> (\<exists>us. [106, 115, 111, 110] = p @ us \<and> prefix us T)"
      by (simp add: prefix_append)
    then consider "prefix [106, 115, 111, 110] p"
      | us where "[106, 115, 111, 110] = p @ us" "prefix us T" "us \<noteq> []"
    proof (elim disjE exE conjE)
      fix us
      assume c: "\<And>us. [106, 115, 111, 110] = p @ us \<Longrightarrow> prefix us T \<Longrightarrow> us \<noteq> []
          \<Longrightarrow> thesis"
        "prefix [106, 115, 111, 110] p \<Longrightarrow> thesis"
        and e: "[106, 115, 111, 110] = p @ us" "prefix us T"
      show thesis
      proof (cases "us = []")
        case True
        with e(1) have "prefix [106, 115, 111, 110] p" by simp
        then show thesis by (rule c(2))
      next
        case False
        from e False show thesis by (rule c(1))
      qed
    qed
    then show False
    proof cases
      case 1
      with j show False by (simp add: py_def)
    next
      case 2
      from 2(2,3) T have "prefix fence T" by auto
      with 2(2,3) have "hd us = (96::nat)"
        by (cases us) (auto simp: fence_run numeral_3_eq_3 prefix_def)
      moreover from 2(3) have "hd us \<in> set us" by simp
      moreover from 2(1) have "set us \<subseteq> set [106, 115, 111, 110::nat]"
        by (metis set_append Un_upper2)
      ultimately show False by auto
    qed
  qed
  then show "\<not> prefix fence_json (96 # 96 # 96 # p @ T)"
    by (simp add: fence_json_chars)
  from p T show "\<not> prefix fence_json (96 # 96 # p @ T)"
    by (cases p; cases T) (auto simp: fence_json_chars fence_run numeral_3_eq_3 prefix_def)
  from p T show "\<not> prefix fence_json (96 # p @ T)"
    by (cases p; cases T) (auto simp: fence_json_chars fence_run numeral_3_eq_3 prefix_def)
qed

lemma replace_scan_keeps_fence:
  assumes p: "96 \<notin> set p" and j: "\<not> prefix (py ''json'') p"
    and T: "T = [] \<or> prefix fence T"
  shows "replace_scan (fence @ p @ T) fence_json [] = fence @ p @ replace_scan T fence_json []"
proof -
  have ne: "fence_json \<noteq> []" by (simp add: fence_json_chars)
  have hd1: "hd fence_json \<notin> set p" using p by (simp add: fence_json_chars)
  note n = fence_not_opener[OF p j T]
  have "replace_scan (96 # 96 # 96 # p @ T) fence_json []
      = 96 # 96 # 96 # replace_scan (p @ T) fence_json []"
    using n by (simp add: replace_scan_skip)
  also have "replace_scan (p @ T) fence_json [] = p @ replace_scan T fence_json []"
    using ne hd1 by (rule replace_scan_skip_prefix)
  finally show ?thesis by (simp add: fence_run numeral_3_eq_3)
qed

lemma replace_scan_drops_opener:
  assumes p: "96 \<notin> set p"
  shows "replace_scan (fence_json @ p @ T) fence_json [] = p @ replace_scan T fence_json []"
proof -
  have ne: "fence_json \<noteq> []" by (simp add: fence_json_chars)
  have hd1: "hd fence_json \<notin> set p" using p by (simp add: fence_json_chars)
  have "replace_scan (fence_json @ p @ T) fence_json []
      = [] @ replace_scan (drop (length fence_json) (fence_json @ p @ T)) fence_json []"
    using ne by (rule replace_scan_match) simp
  also have "\<dots> = replace_scan (p @ T) fence_json []" by simp
  also have "\<dots> = p @ replace_scan T fence_json []"
    using ne hd1 by (rule replace_scan_skip_prefix)
  finally show ?thesis .
qed

lemma replace_scan_drops_fence:
  assumes p: "96 \<notin> set p"
  shows "replace_scan (fence @ p @ T) fence [] = p @ replace_scan T fence []"
proof -
  have ne: "fence \<noteq> []" by (simp add: fence_run)
  have hd1: "hd fence \<notin> set p" using p by (simp add: fence_run numeral_3_eq_3)
  have "replace_scan (fence @ p @ T) fence []
      = [] @ replace_scan (drop (length fence) (fence @ p @ T)) fence []"
    using ne by (rule replace_scan_match) simp
  also have "\<dots> = replace_scan (p @ T) fence []" by simp
  also have "\<dots> = p @ replace_scan T fence []"
    using ne hd1 by (rule replace_scan_skip_prefix)
  finally show ?thesis .
qed

lemma first_pass_fenced:
  "list_all fenced_piece mps \<Longrightarrow>
     replace_scan (concat (map (\<lambda>(m, p). m @ p) mps)) fence_json []
       = concat (map (\<lambda>(m, p). (if m = fence_json then [] else fence) @ p) mps)"
proof (induction mps)
  case Nil
  show ?case by simp
next
  case (Cons mp mps)
  obtain m p where mp: "mp = (m, p)" by (cases mp)
  from Cons.prems have piece: "fenced_piece mp" and rest: "list_all fenced_piece mps"
    by simp_all
  from piece mp have p: "96 \<notin> set p"
    and m: "m = fence_json \<or> (m = fence \<and> \<not> prefix (py ''json'') p)"
    by (simp_all add: fenced_piece_def)
  note IH = Cons.IH[OF rest]
  note T = fenced_tail_shape[OF rest]
  show ?case
  proof (cases "m = fence_json")
    case True
    with mp IH replace_scan_drops_opener[OF p] show ?thesis by simp
  next
    case False
    with m have mf: "m = fence" and j: "\<not> prefix (py ''json'') p" by auto
    from mf False mp IH replace_scan_keeps_fence[OF p j T] show ?thesis by simp
  qed
qed

lemma second_pass_fenced:
  "list_all fenced_piece mps \<Longrightarrow>
     replace_scan (concat (map (\<lambda>(m, p). (if m = fence_json then [] else fence) @ p) mps))
        fence []
       = concat (map snd mps)"
proof (induction mps)
  case Nil
  show ?case by simp
next
  case (Cons mp mps)
  obtain m p where mp: "mp = (m, p)" by (cases mp)
  from Cons.prems have piece: "fenced_piece mp" and rest: "list_all fenced_piece mps"
    by simp_all
  from piece mp have p: "96 \<notin> set p"
    by (simp add: fenced_piece_def)
  note IH = Cons.IH[OF rest]
  have ne: "fence \<noteq> []" by (simp add: fence_run)
  have hd1: "hd fence \<notin> set p" using p by (simp add: fence_run numeral_3_eq_3)
  show ?case
  proof (cases "m = fence_json")
    case True
    with mp IH replace_scan_skip_prefix[OF ne hd1] show ?thesis by simp
  next
    case False
    with mp IH replace_scan_drops_fence[OF p] show ?thesis by simp
  qed
qed

lemma clean_text_fenced:
  assumes p0: "96 \<notin> set p0" and mps: "list_all fenced_piece mps"
  shows "clean_text (fenced_text p0 mps) = strip (plain_text p0 mps)"
proof -
  have ne: "fence_json \<noteq> []" "fence \<noteq> []" by (simp_all add: fence_json_chars fence_run)
  have hd1: "hd fence_json \<notin> set p0" "hd fence \<notin> set p0"
    using p0 by (simp_all add: fence_json_chars fence_run numeral_3_eq_3)
  have "replace (fenced_text p0 mps) fence_json []
      = p0 @ concat (map (\<lambda>(m, p). (if m = fence_json then [] else fence) @ p) mps)"
    using ne by (simp add: replace_def fenced_text_def
        replace_scan_skip_prefix[OF ne(1) hd1(1)] first_pass_fenced[OF mps])
  moreover have "replace (p0 @ concat (map (\<lambda>(m, p). (if m = fence_json then [] else fence) @ p) mps))
      fence [] = p0 @ concat (map snd mps)"
    using ne by (simp add: replace_def
        replace_scan_skip_prefix[OF ne(2) hd1(2)] second_pass_fenced[OF mps])
  ultimately show ?thesis by (simp add: clean_text_def plain_text_def)
qed

lemma plain_text_no_fence:
  assumes p0: "96 \<notin> set p0" and mps: "list_all fenced_piece mps"
  shows "\<not> sublist fence (plain_text p0 mps)"
proof
  assume "sublist fence (plain_text p0 mps)"
  then have "set fence \<subseteq> set (plain_text p0 mps)" by (rule set_mono_sublist)
  then have "96 \<in> set (plain_text p0 mps)" by (simp add: fence_run numeral_3_eq_3)
  moreover from mps have "\<forall>mp \<in> set mps. 96 \<notin> set (snd mp)"
    by (auto simp: list_all_iff fenced_piece_def)
  ultimately show False using p0 by (auto simp: plain_text_def)
qed

lemma clean_text_fenced_plain:
  assumes p0: "96 \<notin> set p0" and mps: "list_all fenced_piece mps"
  shows "clean_text (fenced_text p0 mps) = clean_text (plain_text p0 mps)"
  using clean_text_fenced[OF assms] clean_text_no_fence_input[OF plain_text_no_fence[OF assms]]
  by simp

section \<open>The decoder consumes what it reads\<close>

text \<open>
  Every successful read leaves less text than it was given. Hence the length test in the
  two loops of the decoder always succeeds, and the loops satisfy the equations without
  it (\<open>parse_array_unfold\<close>, \<open>parse_object_unfold\<close>).
\<close>

lemma match_fraction_le: "match_fraction s = (f, r) \<Longrightarrow> length r \<le> length s"
  by (auto simp: match_fraction_def split: list.splits if_splits
      intro: le_trans[OF length_dropWhile_le])

lemma match_exponent_le: "match_exponent s = (e, r) \<Longrightarrow> length r \<le> length s"
  by (auto simp: match_exponent_def Let_def split: list.splits if_splits prod.splits
      intro: le_trans[OF length_dropWhile_le])

lemma match_digits_shorter:
  assumes "match_digits L neg s = Inr (v, r)"
  shows "length r < length s"
proof (cases s)
  case Nil
  with assms show ?thesis by (simp add: match_digits_def)
next
  case (Cons d ds)
  define r1 where "r1 = (if d = cp CHR ''0'' then ds else dropWhile isdigit ds)"
  obtain f r2 where f: "match_fraction r1 = (f, r2)" by (cases "match_fraction r1")
  obtain e r3 where e: "match_exponent r2 = (e, r3)" by (cases "match_exponent r2")
  from assms Cons f e have "r = r3"
    by (auto simp: match_digits_def Let_def r1_def split: if_splits sum.splits)
  moreover have "length r1 \<le> length ds"
    by (simp add: r1_def length_dropWhile_le)
  moreover note match_fraction_le[OF f] match_exponent_le[OF e]
  ultimately show ?thesis using Cons by simp
qed

lemma match_number_shorter:
  "match_number L s = Inr (v, r) \<Longrightarrow> length r < length s"
  by (auto simp: match_number_def split: list.splits if_splits
      dest!: match_digits_shorter)

lemma scan_consumes_all:
  "(\<forall>v r. scan_once L h s = Inr (v, r) \<longrightarrow> length r < length s)"
  "(\<forall>vs r. parse_array L1 h1 s1 = Inr (vs, r) \<longrightarrow> length r < length s1)"
  "(\<forall>ps r. parse_object L2 h2 s2 = Inr (ps, r) \<longrightarrow> length r < length s2)"
proof (induction L h s and L1 h1 s1 and L2 h2 s2
    rule: scan_once_parse_array_parse_object.induct)
  case (1 L h)
  show ?case by (simp add: scan_once.simps)
next
  case (2 L h c cs)
  show ?case
  proof (intro allI impI)
    fix v r
    assume a: "scan_once L h (c # cs) = Inr (v, r)"
    consider (str) "c = 0x22" | (obj) "c \<noteq> 0x22" "c = cp CHR ''{''"
      | (arr) "c \<noteq> 0x22" "c \<noteq> cp CHR ''{''" "c = cp CHR ''[''"
      | (other) "c \<noteq> 0x22" "c \<noteq> cp CHR ''{''" "c \<noteq> cp CHR ''[''"
      by blast
    then show "length r < length (c # cs)"
    proof cases
      case str
      with a show ?thesis
        by (auto simp: scan_once.simps split: option.splits dest!: scanstring_shorter)
    next
      case obj
      with a have h0: "h \<noteq> 0"
        by (auto simp: scan_once.simps split: if_splits)
      show ?thesis
      proof (cases "skip_ws cs")
        case Nil
        with a obj h0 show ?thesis by (simp add: scan_once.simps)
      next
        case (Cons d r0)
        note le = skip_ws_Cons_shorter[OF Cons]
        show ?thesis
        proof (cases "d = cp CHR ''}''")
          case True
          with a obj h0 Cons le show ?thesis by (auto simp: scan_once.simps)
        next
          case False
          from 2(1) obj h0 Cons False
          have IH: "\<forall>ps r. parse_object L (h - 1) (d # r0) = Inr (ps, r)
              \<longrightarrow> length r < length (d # r0)"
            by blast
          from IH a obj h0 Cons False
          have "length r < length (d # r0)"
            by (auto simp: scan_once.simps split: sum.splits)
          with le show ?thesis by simp
        qed
      qed
    next
      case arr
      with a have h0: "h \<noteq> 0"
        by (auto simp: scan_once.simps split: if_splits)
      show ?thesis
      proof (cases "skip_ws cs")
        case Nil
        with a arr h0 show ?thesis by (simp add: scan_once.simps)
      next
        case (Cons d r0)
        note le = skip_ws_Cons_shorter[OF Cons]
        show ?thesis
        proof (cases "d = cp CHR '']''")
          case True
          with a arr h0 Cons le show ?thesis by (auto simp: scan_once.simps)
        next
          case False
          from 2(2) arr h0 Cons False
          have IH: "\<forall>vs r. parse_array L (h - 1) (d # r0) = Inr (vs, r)
              \<longrightarrow> length r < length (d # r0)"
            by blast
          from IH a arr h0 Cons False
          have "length r < length (d # r0)"
            by (auto simp: scan_once.simps split: sum.splits)
          with le show ?thesis by simp
        qed
      qed
    next
      case other
      with a show ?thesis
        by (auto simp: scan_once.simps split: if_splits dest!: match_number_shorter)
    qed
  qed
next
  case (3 L h s)
  show ?case
  proof (intro allI impI)
    fix vs r
    assume a: "parse_array L h s = Inr (vs, r)"
    then obtain v r0 where s: "scan_once L h s = Inr (v, r0)"
      by (subst (asm) parse_array.simps) (auto split: sum.splits)
    with 3(1) have l0: "length r0 < length s" by simp
    from a s obtain d r' where w: "skip_ws r0 = d # r'"
      by (subst (asm) parse_array.simps) (auto split: list.splits)
    note l1 = skip_ws_Cons_shorter[OF w]
    show "length r < length s"
    proof (cases "d = cp CHR '']''")
      case True
      with a s w l0 l1 show ?thesis
        by (subst (asm) parse_array.simps) auto
    next
      case False
      with a s w have g: "d = cp CHR '','' \<and> length r' < length s"
        by (subst (asm) parse_array.simps) (auto split: if_splits)
      from a s w False g obtain vs' where "parse_array L h (skip_ws r') = Inr (vs', r)"
        by (subst (asm) parse_array.simps) (auto split: sum.splits)
      with 3(2)[OF s refl w False g] have "length r < length (skip_ws r')"
        by simp
      with skip_ws_le[of r'] g show ?thesis by simp
    qed
  qed
next
  case (4 L h s)
  show ?case
  proof (intro allI impI)
    fix ps r
    assume a: "parse_object L h s = Inr (ps, r)"
    from a obtain q s1 where s: "s = q # s1" and q: "\<not> q \<noteq> 0x22"
      by (subst (asm) parse_object.simps) (auto split: list.splits if_splits)
    from a s q obtain key r0 where k: "scanstring s1 = Some (key, r0)"
      by (subst (asm) parse_object.simps) (auto split: option.splits)
    note l0 = scanstring_shorter[OF k]
    from a s q k obtain colon r1 where w1: "skip_ws r0 = colon # r1"
      by (subst (asm) parse_object.simps) (auto split: list.splits)
    note l1 = skip_ws_Cons_shorter[OF w1]
    from a s q k w1 have c: "\<not> colon \<noteq> cp CHR '':''"
      by (subst (asm) parse_object.simps) (auto split: if_splits)
    from a s q k w1 c obtain v r2 where v: "scan_once L h (skip_ws r1) = Inr (v, r2)"
      by (subst (asm) parse_object.simps) (auto split: sum.splits)
    from 4(1)[OF s q k refl w1 c] v have l2: "length r2 < length (skip_ws r1)"
      by simp
    from a s q k w1 c v obtain d r3 where w3: "skip_ws r2 = d # r3"
      by (subst (asm) parse_object.simps) (auto split: list.splits)
    note l3 = skip_ws_Cons_shorter[OF w3]
    have chain: "length r3 < length s"
      using l0 l1 l2 l3 skip_ws_le[of r1] s by simp
    show "length r < length s"
    proof (cases "d = cp CHR ''}''")
      case True
      with a s q k w1 c v w3 chain show ?thesis
        by (subst (asm) parse_object.simps) auto
    next
      case False
      with a s q k w1 c v w3 have g: "d = cp CHR '','' \<and> length r3 < length s"
        by (subst (asm) parse_object.simps) (auto split: if_splits)
      from a s q k w1 c v w3 False g obtain ps' where
        "parse_object L h (skip_ws r3) = Inr (ps', r)"
        by (subst (asm) parse_object.simps) (auto split: sum.splits)
      with 4(2)[OF s q k refl w1 c v refl w3 False g]
      have "length r < length (skip_ws r3)" by simp
      with skip_ws_le[of r3] chain show ?thesis by simp
    qed
  qed
qed

lemma scan_once_shorter: "scan_once L h s = Inr (v, r) \<Longrightarrow> length r < length s"
  using scan_consumes_all(1) by blast

lemma parse_array_unfold:
  "parse_array L h s =
     (case scan_once L h s of
        Inl e \<Rightarrow> Inl e
      | Inr (v, r) \<Rightarrow>
          (case skip_ws r of
             [] \<Rightarrow> Inl JSONDecodeError
           | d # r' \<Rightarrow>
               if d = cp CHR '']'' then Inr ([v], r')
               else if d = cp CHR '','' then
                 (case parse_array L h (skip_ws r') of
                    Inl e \<Rightarrow> Inl e
                  | Inr (vs, r'') \<Rightarrow> Inr (v # vs, r''))
               else Inl JSONDecodeError))"
proof (cases "scan_once L h s")
  case (Inl e)
  then show ?thesis by (subst parse_array.simps) simp
next
  case (Inr p)
  obtain v r where p: "p = (v, r)" by (cases p)
  note l = scan_once_shorter[OF Inr[unfolded p]]
  show ?thesis
  proof (cases "skip_ws r")
    case Nil
    with Inr p show ?thesis by (subst parse_array.simps) simp
  next
    case (Cons d r')
    from skip_ws_Cons_shorter[OF Cons] l have "length r' < length s" by simp
    with Inr p Cons show ?thesis by (subst parse_array.simps) simp
  qed
qed

lemma parse_object_unfold:
  "parse_object L h s =
     (case s of
        [] \<Rightarrow> Inl JSONDecodeError
      | q # s1 \<Rightarrow>
          if q \<noteq> 0x22 then Inl JSONDecodeError
          else
            (case scanstring s1 of
               None \<Rightarrow> Inl JSONDecodeError
             | Some (key, r) \<Rightarrow>
                 (case skip_ws r of
                    [] \<Rightarrow> Inl JSONDecodeError
                  | colon # r1 \<Rightarrow>
                      if colon \<noteq> cp CHR '':'' then Inl JSONDecodeError
                      else
                        (case scan_once L h (skip_ws r1) of
                           Inl e \<Rightarrow> Inl e
                         | Inr (v, r2) \<Rightarrow>
                             (case skip_ws r2 of
                                [] \<Rightarrow> Inl JSONDecodeError
                              | d # r3 \<Rightarrow>
                                  if d = cp CHR ''}'' then Inr ([(key, v)], r3)
                                  else if d = cp CHR '','' then
                                    (case parse_object L h (skip_ws r3) of
                                       Inl e \<Rightarrow> Inl e
                                     | Inr (pairs, r4) \<Rightarrow> Inr ((key, v) # pairs, r4))
                                  else Inl JSONDecodeError)))))"
proof -
  have guard: "length r3 < length (q # s1)"
    if "scanstring s1 = Some (key, r)" "skip_ws r = colon # r1"
      "scan_once L h (skip_ws r1) = Inr (v, r2)" "skip_ws r2 = d # r3"
    for q s1 key r colon r1 v r2 d r3
    using scanstring_shorter[OF that(1)] skip_ws_Cons_shorter[OF that(2)]
      scan_once_shorter[OF that(3)] skip_ws_Cons_shorter[OF that(4)] skip_ws_le[of r1]
    by simp
  show ?thesis
    by (subst parse_object.simps)
       (auto split: list.splits option.splits sum.splits dest: guard)
qed

section \<open>Evaluating the model on concrete text\<close>

lemmas decoder_simps =
  json_loads_def json_loads_with_def cpython_defaults_def py_def skip_ws_def json_ws_def
  scan_once.simps parse_array.simps parse_object.simps scanstring.simps cons_chunk_def
  escape_def hex4_def hexval_def match_number_def match_digits_def match_fraction_def
  match_exponent_def number_value_def int_too_long_def scale10_def isdigit_def
  digits_value_def dict_def Let_def

lemmas clean_simps =
  clean_text_def replace_def fence_def fence_json_def replace_scan.simps strip_def isspace_def

lemmas run_simps =
  and_then_def emit_def returns_def outcome_def parse_stays_response_def
  parse_stays_response_with_def parse_failed_def

lemmas display_simps =
  display_stays_def render_stay_def str_join_def int_literal_def digit_groups_def
  int_space_def

lemmas main_simps =
  main_def search_def configure_gemini_def get_gemini_response_def api_key_missing_def
  answering_def

lemma parse_brackets: "parse_stays_response (py ''[]'') = ([], Inr (PyList []))"
  by (simp add: run_simps clean_simps decoder_simps)

section \<open>Exceptions of the decoder that the parser does not catch\<close>

text \<open>
  \<open>parse_stays_response\<close> catches \<open>json.JSONDecodeError\<close> only. Any other exception of
  \<open>json.loads\<close> leaves the function, with no report.
\<close>

lemma parse_stays_response_propagates:
  "json_loads_with L (clean_text s) = Inl e \<Longrightarrow> e \<noteq> JSONDecodeError \<Longrightarrow>
     parse_stays_response_with L s = ([], Inl e)"
  by (simp add: parse_stays_response_with_def)

text \<open>
  Arrays nested one level deeper than the interpreter's recursion headroom make the
  decoder raise \<open>RecursionError\<close>, whatever the headroom is and whatever follows the
  opening brackets.
\<close>

lemma scan_once_nested:
  "scan_once L h (replicate (Suc h) (cp CHR ''['') @ r) = Inl RecursionError"
proof (induction h)
  case 0
  show ?case by (simp add: scan_once.simps)
next
  case (Suc h)
  have "parse_array L h (cp CHR ''['' # replicate h (cp CHR ''['') @ r) = Inl RecursionError"
    using Suc by (subst parse_array_unfold) simp
  then show ?case
    by (simp add: scan_once.simps skip_ws_def json_ws_def)
qed

lemma clean_text_replicate:
  assumes "\<not> isspace c" "c \<noteq> 96"
  shows "clean_text (replicate n c) = replicate n c"
proof -
  have "\<not> sublist fence (replicate n c)"
  proof
    assume "sublist fence (replicate n c)"
    then have "set fence \<subseteq> set (replicate n c)" by (rule set_mono_sublist)
    with assms(2) show False by (auto simp: fence_run numeral_3_eq_3)
  qed
  then have "clean_text (replicate n c) = strip (replicate n c)"
    by (rule clean_text_no_fence_input)
  also have "\<dots> = replicate n c"
    using assms(1) by (simp add: strip_def dropWhile_replicate)
  finally show ?thesis .
qed

lemma json_loads_nested:
  "json_loads_with L (replicate (Suc (recursion_headroom L)) (cp CHR ''[''))
     = Inl RecursionError"
  using scan_once_nested[of L "recursion_headroom L" "[]"]
  by (simp add: json_loads_with_def skip_ws_def json_ws_def)

lemma parse_stays_response_nested:
  "parse_stays_response_with L (replicate (Suc (recursion_headroom L)) (cp CHR ''[''))
     = ([], Inl RecursionError)"
proof -
  have "clean_text (replicate (Suc (recursion_headroom L)) (cp CHR ''[''))
      = replicate (Suc (recursion_headroom L)) (cp CHR ''['')"
    by (rule clean_text_replicate) (simp_all add: isspace_def)
  then show ?thesis
    unfolding parse_stays_response_with_def by (simp only: json_loads_nested) simp
qed

text \<open>
  An integer literal with more digits than the interpreter's limit for the conversion of
  a string to an \<open>int\<close> makes the decoder raise \<open>ValueError\<close>: with CPython's default limit,
  a literal of 4301 digits.
\<close>

lemma json_loads_long_integer:
  assumes "int_too_long L (replicate n (cp CHR ''1''))"
  shows "json_loads_with L (replicate n (cp CHR ''1'')) = Inl ValueError"
proof -
  from assms obtain m where n: "n = Suc m"
    by (cases n) (simp_all add: int_too_long_def)
  have "match_digits L False (cp CHR ''1'' # replicate m (cp CHR ''1'')) = Inl ValueError"
    using assms unfolding n
    by (simp add: match_digits_def match_fraction_def match_exponent_def number_value_def
        isdigit_def Let_def)
  then show ?thesis
    unfolding n
    by (simp add: json_loads_with_def skip_ws_def json_ws_def scan_once.simps
        match_number_def)
qed

lemma parse_stays_response_long_integer:
  assumes "int_too_long L (replicate n (cp CHR ''1''))"
  shows "parse_stays_response_with L (replicate n (cp CHR ''1'')) = ([], Inl ValueError)"
proof -
  have "clean_text (replicate n (cp CHR ''1'')) = replicate n (cp CHR ''1'')"
    by (rule clean_text_replicate) (simp_all add: isspace_def)
  then show ?thesis
    unfolding parse_stays_response_with_def
    by (simp only: json_loads_long_integer[OF assms]) simp
qed

lemma parse_stays_response_4301_digits:
  "parse_stays_response (replicate 4301 (cp CHR ''1'')) = ([], Inl ValueError)"
  unfolding parse_stays_response_def
  by (rule parse_stays_response_long_integer)
     (simp add: int_too_long_def cpython_defaults_def)

lemma parse_brackets_with:
  "0 < recursion_headroom L \<Longrightarrow>
     parse_stays_response_with L (py ''[]'') = ([], Inr (PyList []))"
  by (simp add: run_simps clean_simps decoder_simps)

section \<open>The parser\<close>

text \<open>
  Claim C8. \<open>parse_stays_response\<close> applied to the text \<open>[]\<close> returns the empty list, and
  it does so on the path without an error: no call to \<open>st.error\<close> is made.
\<close>

theorem parse_stays_response_empty_array:
  "parse_stays_response (py ''[]'') = ([], Inr (PyList []))"
  by (simp add: run_simps clean_simps decoder_simps)

text \<open>
  Claim C3, as amended. On the empty text, on \<open>not json\<close> and on \<open>{not an array}\<close> the
  decoder raises \<open>JSONDecodeError\<close> and \<open>parse_stays_response\<close> takes its \<open>except\<close> branch: it
  reports \<open>Failed to parse AI response. Please try again.\<close> through \<open>st.error\<close> and returns
  the empty list. Only this report tells the run apart from the successful one on \<open>[]\<close>,
  which reports nothing.
\<close>

theorem parse_stays_response_signals_failure:
  \<open>json_loads (clean_text (py '''')) = Inl JSONDecodeError
   \<and> json_loads (clean_text (py ''not json'')) = Inl JSONDecodeError
   \<and> json_loads (clean_text (py ''{not an array}'')) = Inl JSONDecodeError
   \<and> parse_stays_response (py '''')
     = ([St_error (py ''Failed to parse AI response. Please try again.'')], Inr (PyList []))
   \<and> parse_stays_response (py ''not json'')
     = ([St_error (py ''Failed to parse AI response. Please try again.'')], Inr (PyList []))
   \<and> parse_stays_response (py ''{not an array}'')
     = ([St_error (py ''Failed to parse AI response. Please try again.'')], Inr (PyList []))
   \<and> fst (parse_stays_response (py ''[]'')) = []\<close>
  by (simp add: run_simps clean_simps decoder_simps)

text \<open>
  Claim C3 as it was stated fails: on each of the three texts the function does return a
  collection, the empty list, and this is the very value it returns for \<open>[]\<close>. No failure
  value is handed back that a caller could tell from a successful result.
\<close>

theorem parse_failure_value_counterexample:
  \<open>snd (parse_stays_response (py ''[]'')) = Inr (PyList [])
   \<and> snd (parse_stays_response (py '''')) = snd (parse_stays_response (py ''[]''))
   \<and> snd (parse_stays_response (py ''not json'')) = snd (parse_stays_response (py ''[]''))
   \<and> snd (parse_stays_response (py ''{not an array}''))
       = snd (parse_stays_response (py ''[]''))\<close>
  by (simp add: run_simps clean_simps decoder_simps)

text \<open>
  Claim C9. On \<open>[{"name":"Inn A","rating":4.5}]\<close> the parser returns a list of one
  \<open>dict\<close> with exactly the keys \<open>name\<close>, bound to \<open>Inn A\<close>, and \<open>rating\<close>, bound to the float
  \<open>4.5\<close>. The keys \<open>type\<close>, \<open>distance_km\<close>, \<open>price_range\<close>, \<open>amenities\<close> and \<open>description\<close> are
  not in the \<open>dict\<close>: the parser adds no defaults.
\<close>

theorem parse_stays_response_one_record:
  \<open>parse_stays_response (py ''[{"name":"Inn A","rating":4.5}]'')
     = ([], Inr (PyList [PyDict [(py ''name'', PyStr (py ''Inn A'')),
                                 (py ''rating'', PyFloat (Finite 4.5))]]))
   \<and> map_of [(py ''name'', PyStr (py ''Inn A'')), (py ''rating'', PyFloat (Finite 4.5))]
        (py ''type'') = None
   \<and> map_of [(py ''name'', PyStr (py ''Inn A'')), (py ''rating'', PyFloat (Finite 4.5))]
        (py ''distance_km'') = None
   \<and> map_of [(py ''name'', PyStr (py ''Inn A'')), (py ''rating'', PyFloat (Finite 4.5))]
        (py ''price_range'') = None
   \<and> map_of [(py ''name'', PyStr (py ''Inn A'')), (py ''rating'', PyFloat (Finite 4.5))]
        (py ''amenities'') = None
   \<and> map_of [(py ''name'', PyStr (py ''Inn A'')), (py ''rating'', PyFloat (Finite 4.5))]
        (py ''description'') = None\<close>
  by (simp add: run_simps clean_simps decoder_simps)

text \<open>
  Claim C10, as amended. On every interpreter and for every text: whenever \<open>json.loads\<close>
  raises \<open>JSONDecodeError\<close> on the cleaned text, \<open>parse_stays_response\<close> reports the
  failure and returns the empty list, the very value it returns for \<open>[]\<close> (which an
  interpreter decodes as soon as it allows one level of nesting): the returned value
  alone does not tell a malformed response from an empty result.
\<close>

theorem parse_failure_returns_empty_list:
  "json_loads_with L (clean_text s) = Inl JSONDecodeError \<Longrightarrow>
     parse_stays_response_with L s
       = ([St_error (py ''Failed to parse AI response. Please try again.'')], Inr (PyList []))
     \<and> (0 < recursion_headroom L \<longrightarrow>
          snd (parse_stays_response_with L s) = snd (parse_stays_response_with L (py ''[]'')))"
  by (simp add: parse_brackets_with) (simp add: run_simps)

theorem parse_failure_returns_empty_list_witness:
  "json_loads_with cpython_defaults (clean_text (py ''not json'')) = Inl JSONDecodeError
   \<and> 0 < recursion_headroom cpython_defaults
   \<and> parse_stays_response_with cpython_defaults (py ''not json'')
       = ([St_error (py ''Failed to parse AI response. Please try again.'')], Inr (PyList []))
   \<and> snd (parse_stays_response_with cpython_defaults (py ''not json''))
       = snd (parse_stays_response_with cpython_defaults (py ''[]''))"
proof -
  have h: "json_loads_with cpython_defaults (clean_text (py ''not json'')) = Inl JSONDecodeError"
    by (simp add: clean_simps decoder_simps)
  have l: "0 < recursion_headroom cpython_defaults"
    by (simp add: cpython_defaults_def)
  from h l parse_failure_returns_empty_list[OF h] show ?thesis by blast
qed

text \<open>
  Claim C10 as it was stated fails, because decoding can fail in ways the function does
  not catch. On every interpreter, the text of opening brackets nested one level deeper
  than the recursion headroom makes \<open>json.loads\<close> raise \<open>RecursionError\<close>, and
  \<open>parse_stays_response\<close> then raises it too, with no report, instead of returning the
  empty list. With a headroom of 1000 this is the text of 1001 opening brackets.
\<close>

theorem deep_nesting_counterexample:
  "\<forall>L :: limits.
      json_loads_with L (clean_text (replicate (Suc (recursion_headroom L)) (cp CHR ''['')))
          = Inl RecursionError
      \<and> parse_stays_response_with L (replicate (Suc (recursion_headroom L)) (cp CHR ''[''))
          = ([], Inl RecursionError)
      \<and> snd (parse_stays_response_with L (replicate (Suc (recursion_headroom L)) (cp CHR ''['')))
          \<noteq> Inr (PyList [])"
proof (intro allI conjI)
  fix L :: limits
  have "clean_text (replicate (Suc (recursion_headroom L)) (cp CHR ''[''))
      = replicate (Suc (recursion_headroom L)) (cp CHR ''['')"
    by (rule clean_text_replicate) (simp_all add: isspace_def)
  then show "json_loads_with L (clean_text (replicate (Suc (recursion_headroom L)) (cp CHR ''['')))
          = Inl RecursionError"
    by (simp only: json_loads_nested)
  show "parse_stays_response_with L (replicate (Suc (recursion_headroom L)) (cp CHR ''[''))
          = ([], Inl RecursionError)"
    by (rule parse_stays_response_nested)
  then show "snd (parse_stays_response_with L (replicate (Suc (recursion_headroom L)) (cp CHR ''['')))
          \<noteq> Inr (PyList [])"
    by (simp only: snd_conv) simp
qed

text \<open>
  Claim C5. Parsing a text and parsing the same text wrapped in a markdown JSON fence
  give the same run: the same report and the same returned value. This holds for the
  opener \<open>```json\<close> and the closer \<open>```\<close> put directly around the text, and also when white
  space (a line break, say) stands between the fence and the text.
\<close>

theorem parse_stays_response_rewrapped:
  "parse_stays_response (fence_json @ X @ fence) = parse_stays_response X
   \<and> (list_all isspace w1 \<and> list_all isspace w2 \<longrightarrow>
        parse_stays_response (fence_json @ w1 @ X @ w2 @ fence) = parse_stays_response X)"
proof (intro conjI impI)
  show "parse_stays_response (fence_json @ X @ fence) = parse_stays_response X"
    using clean_text_wrapped[of "[]" "[]" X]
    by (simp add: parse_stays_response_def parse_stays_response_with_def)
next
  assume "list_all isspace w1 \<and> list_all isspace w2"
  then have "clean_text (fence_json @ w1 @ X @ w2 @ fence) = clean_text X"
    by (simp add: clean_text_wrapped)
  then show "parse_stays_response (fence_json @ w1 @ X @ w2 @ fence) = parse_stays_response X"
    by (simp add: parse_stays_response_def parse_stays_response_with_def)
qed

theorem parse_stays_response_rewrapped_witness:
  \<open>list_all isspace [10] \<and>
   parse_stays_response (py ''```json'' @ [10] @ py ''[{"name":"Inn A"}]'' @ [10] @ py ''```'')
     = parse_stays_response (py ''[{"name":"Inn A"}]'')
   \<and> parse_stays_response (py ''```json'' @ py ''not json'' @ py ''```'')
     = parse_stays_response (py ''not json'')
   \<and> parse_stays_response (py ''[{"name":"Inn A"}]'')
     = ([], Inr (PyList [PyDict [(py ''name'', PyStr (py ''Inn A''))]]))\<close>
proof -
  have sp: "list_all isspace [10]" by (simp add: isspace_def)
  have v: \<open>parse_stays_response (py ''[{"name":"Inn A"}]'')
     = ([], Inr (PyList [PyDict [(py ''name'', PyStr (py ''Inn A''))]]))\<close>
    by (simp add: run_simps clean_simps decoder_simps)
  from sp v
    parse_stays_response_rewrapped[of \<open>py ''[{"name":"Inn A"}]''\<close> "[10]" "[10]"]
    parse_stays_response_rewrapped[of "py ''not json''" "[]" "[]"]
  show ?thesis by (simp add: fence_def fence_json_def)
qed

text \<open>
  Claim C4, as amended. The first step deletes every occurrence of \<open>```json\<close> and then
  every occurrence of \<open>```\<close>, wherever it stands, not just one leading and one trailing
  fence. For every text: the text handed to the decoder never contains \<open>```\<close>, and a text
  with no \<open>```\<close> in it is only stripped of surrounding white space and decoded as it is.
  For every text whose backticks all belong to markers \<open>```json\<close> and \<open>```\<close>, at any place
  and in any number: the text handed to the decoder is the text without its markers,
  stripped, with everything between the markers kept in its order; and the run of the
  parser, report and returned value, is its run on the text without the markers, on
  every interpreter. So a marker in the interior of the payload does not survive.
\<close>

theorem clean_text_removes_every_fence:
  "\<not> sublist fence (clean_text s)
   \<and> (\<not> sublist fence s \<longrightarrow> clean_text s = strip s)
   \<and> (96 \<notin> set p \<and> list_all fenced_piece mps \<longrightarrow>
        clean_text (fenced_text p mps) = strip (plain_text p mps)
        \<and> parse_stays_response_with L (fenced_text p mps)
            = parse_stays_response_with L (plain_text p mps))"
proof (intro conjI impI)
  show "\<not> sublist fence (clean_text s)" by (rule clean_text_no_fence)
next
  assume "\<not> sublist fence s"
  then show "clean_text s = strip s" by (rule clean_text_no_fence_input)
next
  assume a: "96 \<notin> set p \<and> list_all fenced_piece mps"
  then show "clean_text (fenced_text p mps) = strip (plain_text p mps)"
    by (simp add: clean_text_fenced)
next
  assume a: "96 \<notin> set p \<and> list_all fenced_piece mps"
  then have "clean_text (fenced_text p mps) = clean_text (plain_text p mps)"
    by (simp add: clean_text_fenced_plain)
  then show "parse_stays_response_with L (fenced_text p mps)
      = parse_stays_response_with L (plain_text p mps)"
    by (simp add: parse_stays_response_with_def)
qed

theorem clean_text_removes_every_fence_witness:
  \<open>96 \<notin> set (py ''{"a": '') \<and> list_all fenced_piece fenced_example
   \<and> fenced_text (py ''{"a": '') fenced_example
       = py ''{"a": ```json'' @ [10] @ py ''["x```y"]'' @ [10] @ py ''```}''
   \<and> plain_text (py ''{"a": '') fenced_example
       = py ''{"a": '' @ [10] @ py ''["xy"]'' @ [10] @ py ''}''
   \<and> sublist fence (fenced_text (py ''{"a": '') fenced_example)
   \<and> \<not> sublist fence (clean_text (fenced_text (py ''{"a": '') fenced_example))
   \<and> clean_text (fenced_text (py ''{"a": '') fenced_example)
       = strip (plain_text (py ''{"a": '') fenced_example)
   \<and> parse_stays_response_with cpython_defaults (fenced_text (py ''{"a": '') fenced_example)
       = parse_stays_response_with cpython_defaults (plain_text (py ''{"a": '') fenced_example)
   \<and> parse_stays_response_with cpython_defaults (plain_text (py ''{"a": '') fenced_example)
       = ([], Inr (PyDict [(py ''a'', PyList [PyStr (py ''xy'')])]))
   \<and> \<not> sublist fence (py '' [] '')
   \<and> clean_text (py '' [] '') = strip (py '' [] '')
   \<and> strip (py '' [] '') = py ''[]''\<close>
proof -
  have h1: \<open>96 \<notin> set (py ''{"a": '')\<close> by (simp add: py_def)
  have h2: "list_all fenced_piece fenced_example"
    by (simp add: fenced_example_def fenced_piece_def fence_def fence_json_def py_def)
  have f: \<open>fenced_text (py ''{"a": '') fenced_example
       = py ''{"a": ```json'' @ [10] @ py ''["x```y"]'' @ [10] @ py ''```}''\<close>
    by (simp add: fenced_text_def fenced_example_def fence_def fence_json_def py_def)
  have g: \<open>plain_text (py ''{"a": '') fenced_example
       = py ''{"a": '' @ [10] @ py ''["xy"]'' @ [10] @ py ''}''\<close>
    by (simp add: plain_text_def fenced_example_def py_def)
  have s: \<open>sublist fence (fenced_text (py ''{"a": '') fenced_example)\<close>
    unfolding f by (simp add: fence_def py_def sublist_Cons_right)
  have v: \<open>parse_stays_response_with cpython_defaults (plain_text (py ''{"a": '') fenced_example)
       = ([], Inr (PyDict [(py ''a'', PyList [PyStr (py ''xy'')])]))\<close>
    unfolding g by (simp add: run_simps clean_simps decoder_simps)
  have h3: "\<not> sublist fence (py '' [] '')"
    by (simp add: fence_def py_def sublist_Cons_right)
  have t: "strip (py '' [] '') = py ''[]''"
    by (simp add: strip_def isspace_def py_def)
  note a = clean_text_removes_every_fence
    [of \<open>fenced_text (py ''{"a": '') fenced_example\<close> \<open>py ''{"a": ''\<close> fenced_example
      cpython_defaults]
  note b = clean_text_removes_every_fence
    [of "py '' [] ''" "[]" "[]" cpython_defaults]
  from a have n: \<open>\<not> sublist fence (clean_text (fenced_text (py ''{"a": '') fenced_example))\<close>
    by blast
  from a h1 h2 have c: \<open>clean_text (fenced_text (py ''{"a": '') fenced_example)
       = strip (plain_text (py ''{"a": '') fenced_example)\<close>
    by blast
  from a h1 h2 have d:
    \<open>parse_stays_response_with cpython_defaults (fenced_text (py ''{"a": '') fenced_example)
       = parse_stays_response_with cpython_defaults (plain_text (py ''{"a": '') fenced_example)\<close>
    by blast
  from b h3 have e: "clean_text (py '' [] '') = strip (py '' [] '')" by blast
  from h1 h2 f g s n c d v h3 e t show ?thesis by blast
qed

text \<open>
  Claim C4 as it was stated fails on the payload \<open>["a```b"]\<close>, whose only fence marker
  stands inside a JSON string: decoded as it is, the string is \<open>a```b\<close>, but the parser
  returns the string \<open>ab\<close>. The first step changed the interior of the payload.
\<close>

theorem interior_fence_counterexample:
  \<open>json_loads (py ''["a```b"]'') = Inr (PyList [PyStr (py ''a```b'')])
   \<and> parse_stays_response (py ''["a```b"]'') = ([], Inr (PyList [PyStr (py ''ab'')]))
   \<and> clean_text (py ''["a```b"]'') \<noteq> strip (py ''["a```b"]'')\<close>
  by (simp add: run_simps clean_simps decoder_simps)

text \<open>
  Claim C2 does not hold of the code. \<open>parse_stays_response\<close> returns whatever the decoder
  returns: for the valid JSON object \<open>{"stays": []}\<close> it returns a \<open>dict\<close>, for \<open>42\<close> an
  \<open>int\<close>, for \<open>[1, "x"]\<close> a list whose items are not records, each without a report of
  failure. With the object as the backend's answer, \<open>main\<close> passes the \<open>dict\<close> on to
  \<open>display_stays\<close>, which ends in an uncaught \<open>AttributeError\<close>.
\<close>

theorem parse_returns_what_decodes:
  \<open>parse_stays_response (py ''{"stays": []}'') = ([], Inr (PyDict [(py ''stays'', PyList [])]))
   \<and> parse_stays_response (py ''42'') = ([], Inr (PyInt 42))
   \<and> parse_stays_response (py ''[1, "x"]'') = ([], Inr (PyList [PyInt 1, PyStr (py ''x'')]))
   \<and> snd (main (answering (py ''{"stays": []}''))) = Inl AttributeError\<close>
  by (simp add: main_simps run_simps display_simps clean_simps decoder_simps)

section \<open>The search action\<close>

text \<open>
  Claim C6 does not hold of the code. A response that decodes to a record whose rating
  is the string \<open>high\<close> makes \<open>int(rating)\<close> raise \<open>ValueError\<close> in \<open>display_stays\<close>, and a
  record whose amenities hold a number makes \<open>str.join\<close> raise \<open>TypeError\<close>. Nothing
  catches either: the exception leaves \<open>main\<close>.
\<close>

theorem display_stays_raises:
  \<open>snd (main (answering (py ''[{"name":"Inn A","rating":"high"}]''))) = Inl ValueError
   \<and> snd (main (answering (py ''[{"name":"Inn A","amenities":[1]}]''))) = Inl TypeError\<close>
  by (simp add: main_simps run_simps display_simps clean_simps decoder_simps)

text \<open>
  Claim C7. When the credential is missing (\<open>GEMINI_API_KEY\<close> unset or empty), a run of
  \<open>main\<close> makes no call to the Gemini client at all: neither \<open>genai.configure\<close> nor
  \<open>generate_content\<close>, the call of \<open>get_gemini_response\<close>. It ends without an exception,
  and when a search was started (button pressed, location not empty) the only thing it
  does after drawing the form is to report the missing key.
\<close>

theorem main_without_credential:
  "api_key_missing e \<Longrightarrow>
     filter backend_call (fst (main e)) = []
     \<and> snd (main e) = Inr ()
     \<and> (search_clicked e \<and> location_input e \<noteq> [] \<longrightarrow>
          fst (main e) = [St_columns, St_text_input, St_markdown (py ''###''), St_button,
                          St_error ([0x274C] @ py '' API key missing.'')])"
  by (simp add: main_def and_then_def emit_def returns_def backend_call_def)

theorem main_without_credential_witness:
  "api_key_missing ((answering (py ''[]'')) \<lparr>GEMINI_API_KEY := None\<rparr>)
   \<and> filter backend_call (fst (main ((answering (py ''[]'')) \<lparr>GEMINI_API_KEY := None\<rparr>))) = []
   \<and> fst (main ((answering (py ''[]'')) \<lparr>GEMINI_API_KEY := None\<rparr>))
       = [St_columns, St_text_input, St_markdown (py ''###''), St_button,
          St_error ([0x274C] @ py '' API key missing.'')]
   \<and> filter backend_call (fst (main (answering (py ''[]'')))) \<noteq> []"
proof -
  have h: "api_key_missing ((answering (py ''[]'')) \<lparr>GEMINI_API_KEY := None\<rparr>)"
    by (simp add: api_key_missing_def)
  have c: "search_clicked ((answering (py ''[]'')) \<lparr>GEMINI_API_KEY := None\<rparr>)
      \<and> location_input ((answering (py ''[]'')) \<lparr>GEMINI_API_KEY := None\<rparr>) \<noteq> []"
    by (simp add: answering_def py_def)
  have b: "filter backend_call (fst (main (answering (py ''[]'')))) \<noteq> []"
    using parse_brackets[unfolded parse_stays_response_def]
    by (simp add: main_simps and_then_def emit_def returns_def backend_call_def py_def)
  from h c b main_without_credential[OF h] show ?thesis by blast
qed

text \<open>
  What the search action does catch: a failure of the backend call is reported and the
  run ends without an exception and without results.
\<close>

lemma get_gemini_response_catches:
  "snd (get_gemini_response e prompt)
     = Inr (case generate_content e prompt of Inl msg \<Rightarrow> None | Inr text \<Rightarrow> Some text)"
  by (simp add: get_gemini_response_def and_then_def emit_def returns_def split: sum.splits)

lemma main_backend_failure:
  assumes "\<And>prompt. \<exists>msg. generate_content e prompt = Inl msg"
  shows "snd (main e) = Inr ()"
proof -
  obtain msg where
    "generate_content e (generate_stays_prompt (location_input e) (radius_slider e)
        (max_results_slider e)) = Inl msg"
    using assms by blast
  then show ?thesis
    by (simp add: main_def search_def configure_gemini_def get_gemini_response_def
        and_then_def emit_def returns_def split: option.splits)
qed

end
